theory Spec2Isabelle
  imports Main "HOL-Library.Signed_Division" "HOL-Library.AList"
begin

section \<open>nccheck: normalization-confluence verifier\<close>

text \<open>
  A shallow embedding of the verification engine of nccheck: the registry data model and
  the mixed-radix state codec (package \<open>registry\<close>), the expression lexer, parser and
  evaluator (package \<open>expr\<close>), and the compiler, table builder and the WFC and CC
  checkers (package \<open>verify\<close>).

  Conventions of the embedding.
  \<^item> Go's \<open>int\<close> is 64 bits wide. A value is an \<open>int\<close> in \<open>[-2^63, 2^63)\<close>
    (\<open>int64\<close>), and the result of every \<open>+\<close>, \<open>-\<close>, \<open>*\<close> and \<open>/\<close> of the source is
    wrapped into that range (\<open>wrap64\<close>). \<open>/\<close> and \<open>%\<close> truncate towards zero
    (\<open>sdiv\<close>, \<open>smod\<close>), and a zero divisor is an explicit error or panic.
  \<^item> A function that returns \<open>(T, error)\<close> returns \<open>error + T\<close>; a runtime panic
    (index out of range, integer division by zero, slice bounds) is the error \<open>Panic\<close>.
  \<^item> A Go map is an association list; \<open>m[k] = v\<close> is \<open>AList.update\<close>, so a key
    occurs once, and \<open>range\<close> visits the entries in list order.
  \<^item> An error message is a constructor of \<open>error\<close> carrying the data the message
    formats.
\<close>

subsection \<open>registry/types.go\<close>

datatype VarType = TypeBool | TypeEnum | TypeInt

record VarDef =
  vName :: string
  vType :: VarType
  vValues :: "string list"
  vMin :: int
  vMax :: int
  vSize :: int

record Invariant =
  iName :: string
  iExpr :: string

record Repair =
  rInvariant :: string
  rAssignments :: "(string \<times> string) list"

record Event =
  eName :: string
  eGuard :: string
  eAssignments :: "(string \<times> string) list"

record Registry =
  gName :: string
  gVars :: "VarDef list"
  Invariants :: "Invariant list"
  Compensation :: "Repair list"
  Events :: "Event list"

type_synonym State = "int list"
type_synonym StateID = int

record Schema =
  Vars :: "VarDef list"
  Strides :: "int list"
  TotalLen :: int

text \<open>An error value is the format string of the \<open>fmt.Errorf\<close> call that made it,
  with the formatted arguments: a string (\<open>%q\<close>, \<open>%s\<close>), an integer (\<open>%d\<close>) or a
  state (the argument of \<open>fmtState\<close>); \<open>Wrapf\<close> is a format that ends in \<open>%w\<close> and
  wraps the error it is given. \<open>Panic\<close> is a runtime panic; it is never wrapped.\<close>

datatype arg = S string | I int | St State

datatype error = Panic | Errorf string "arg list" | Wrapf string "arg list" error

definition bind :: "error + 'a \<Rightarrow> ('a \<Rightarrow> error + 'b) \<Rightarrow> error + 'b" where
  "bind m f = (case m of Inl e \<Rightarrow> Inl e | Inr x \<Rightarrow> f x)"

definition wrapf :: "string \<Rightarrow> arg list \<Rightarrow> error + 'a \<Rightarrow> error + 'a" where
  "wrapf fmt args m =
     (case m of Inl Panic \<Rightarrow> Inl Panic | Inl e \<Rightarrow> Inl (Wrapf fmt args e) | Inr x \<Rightarrow> Inr x)"

text \<open>\<open>xs[i]\<close> and \<open>xs[i] = v\<close> on a slice: an index out of range panics.\<close>

definition at :: "'a list \<Rightarrow> int \<Rightarrow> error + 'a" where
  "at xs i = (if 0 \<le> i \<and> i < int (length xs) then Inr (xs ! nat i) else Inl Panic)"

definition set_at :: "'a list \<Rightarrow> int \<Rightarrow> 'a \<Rightarrow> error + 'a list" where
  "set_at xs i v = (if 0 \<le> i \<and> i < int (length xs) then Inr (xs[nat i := v]) else Inl Panic)"

text \<open>Two's-complement wrap-around of a 64-bit \<open>int\<close>.\<close>

definition wrap64 :: "int \<Rightarrow> int" where
  "wrap64 x = (x + 2 ^ 63) mod 2 ^ 64 - 2 ^ 63"

definition int64 :: "int \<Rightarrow> bool" where
  "int64 x \<longleftrightarrow> - (2 ^ 63) \<le> x \<and> x < 2 ^ 63"

text \<open>\<open>NewSchema\<close>: the loop runs from the last variable to the first; each stride is
  the product of the sizes to its right.\<close>

fun NewSchema_loop :: "VarDef list \<Rightarrow> int list \<times> int" where
  "NewSchema_loop [] = ([], 1)"
| "NewSchema_loop (v # vs) =
     (case NewSchema_loop vs of (strides, tot) \<Rightarrow> (tot # strides, wrap64 (tot * vSize v)))"

definition NewSchema :: "VarDef list \<Rightarrow> Schema" where
  "NewSchema vars =
     (case NewSchema_loop vars of
        (strides, tot) \<Rightarrow> \<lparr>Vars = vars, Strides = strides, TotalLen = tot\<rparr>)"

text \<open>\<open>Encode\<close>: \<open>for i, v := range st\<close> reads \<open>s.Vars[i]\<close> and \<open>s.Strides[i]\<close>;
  the three lists are walked together, and a state longer than either is an index out of
  range.\<close>

fun Encode_loop :: "VarDef list \<Rightarrow> int list \<Rightarrow> State \<Rightarrow> int \<Rightarrow> error + StateID" where
  "Encode_loop vars strides [] ident = Inr ident"
| "Encode_loop (vd # vars) (stride # strides) (v # st) ident =
     Encode_loop vars strides st
       (wrap64 (ident + wrap64 ((if vType vd = TypeInt then wrap64 (v - vMin vd) else v) * stride)))"
| "Encode_loop vars strides (v # st) ident = Inl Panic"

definition Encode :: "Schema \<Rightarrow> State \<Rightarrow> error + StateID" where
  "Encode s st = Encode_loop (Vars s) (Strides s) st 0"

text \<open>\<open>Decode\<close>: \<open>for i := range s.Vars\<close> divides the remainder by \<open>s.Strides[i]\<close>;
  a missing or zero stride panics.\<close>

fun Decode_loop :: "VarDef list \<Rightarrow> int list \<Rightarrow> int \<Rightarrow> error + State" where
  "Decode_loop [] strides rem = Inr []"
| "Decode_loop (vd # vars) [] rem = Inl Panic"
| "Decode_loop (vd # vars) (stride # strides) rem =
     (if stride = 0 then Inl Panic
      else (case Decode_loop vars strides (rem smod stride) of
              Inl e \<Rightarrow> Inl e
            | Inr st \<Rightarrow>
                Inr ((if vType vd = TypeInt then wrap64 (wrap64 (rem sdiv stride) + vMin vd)
                      else wrap64 (rem sdiv stride)) # st)))"

definition Decode :: "Schema \<Rightarrow> StateID \<Rightarrow> error + State" where
  "Decode s ident = Decode_loop (Vars s) (Strides s) ident"

fun VarIndex_loop :: "VarDef list \<Rightarrow> string \<Rightarrow> int \<Rightarrow> int" where
  "VarIndex_loop [] name i = - 1"
| "VarIndex_loop (v # vs) name i = (if vName v = name then i else VarIndex_loop vs name (i + 1))"

definition VarIndex :: "Schema \<Rightarrow> string \<Rightarrow> int" where
  "VarIndex s name = VarIndex_loop (Vars s) name 0"





subsection \<open>expr/lexer.go\<close>

datatype TokenType = TokEOF | TokInt | TokIdent | TokTrue | TokFalse | TokNot | TokAnd | TokOr
  | TokIf | TokThen | TokElse | TokEq | TokNeq | TokLt | TokLe | TokGt | TokGe | TokPlus
  | TokMinus | TokStar | TokSlash | TokPercent | TokLParen | TokRParen | TokComma

record Token =
  tType :: TokenType
  tVal :: string
  tPos :: nat

definition keywordTable :: "string \<Rightarrow> TokenType option" where
  "keywordTable = map_of
     [(''true'', TokTrue), (''false'', TokFalse), (''not'', TokNot), (''and'', TokAnd),
      (''or'', TokOr), (''if'', TokIf), (''then'', TokThen), (''else'', TokElse)]"

text \<open>The lexer classifies \<open>rune(input[i])\<close>, one byte read as a code point below 256,
  with \<open>unicode.IsSpace\<close>, \<open>unicode.IsDigit\<close> and \<open>unicode.IsLetter\<close>. Modelled from
  the Unicode tables of the Go library, restricted to Latin-1.\<close>

definition IsSpace :: "char \<Rightarrow> bool" where
  "IsSpace c = (let n = (of_char c :: nat) in (9 \<le> n \<and> n \<le> 13) \<or> n = 32 \<or> n = 133 \<or> n = 160)"

definition IsDigit :: "char \<Rightarrow> bool" where
  "IsDigit c = (let n = (of_char c :: nat) in 48 \<le> n \<and> n \<le> 57)"

definition IsLetter :: "char \<Rightarrow> bool" where
  "IsLetter c =
     (let n = (of_char c :: nat) in
        (65 \<le> n \<and> n \<le> 90) \<or> (97 \<le> n \<and> n \<le> 122) \<or> n = 170 \<or> n = 181 \<or> n = 186
        \<or> (192 \<le> n \<and> n \<le> 214) \<or> (216 \<le> n \<and> n \<le> 246) \<or> (248 \<le> n \<and> n \<le> 255))"

text \<open>\<open>for i < len(input) && p(input[i]) { i++ }\<close>\<close>

function scan :: "(char \<Rightarrow> bool) \<Rightarrow> string \<Rightarrow> nat \<Rightarrow> nat" where
  "scan p input i = (if i < length input \<and> p (input ! i) then scan p input (i + 1) else i)"
  by pat_completeness auto
termination
  by (relation "measure (\<lambda>(p, input, i). length input - i)") auto

declare scan.simps [simp del]

lemma scan_ge: "i \<le> scan p input i"
proof (induction p input i rule: scan.induct)
  case (1 p input i)
  then show ?case by (subst scan.simps) auto
qed

lemma scan_gt: "i < length input \<Longrightarrow> p (input ! i) \<Longrightarrow> i < scan p input i"
  using scan_ge [of "i + 1" p input] by (subst scan.simps) auto

text \<open>\<open>input[start:i]\<close>\<close>

definition slice :: "string \<Rightarrow> nat \<Rightarrow> nat \<Rightarrow> string" where
  "slice input start i = take (i - start) (drop start input)"

definition mkTok :: "TokenType \<Rightarrow> string \<Rightarrow> nat \<Rightarrow> Token" where
  "mkTok tt v p = \<lparr>tType = tt, tVal = v, tPos = p\<rparr>"

definition single_char :: "char \<Rightarrow> TokenType option" where
  "single_char ch =
     (if ch = CHR ''<'' then Some TokLt
      else if ch = CHR ''>'' then Some TokGt
      else if ch = CHR ''+'' then Some TokPlus
      else if ch = CHR ''-'' then Some TokMinus
      else if ch = CHR ''*'' then Some TokStar
      else if ch = CHR ''/'' then Some TokSlash
      else if ch = CHR ''%'' then Some TokPercent
      else if ch = CHR ''('' then Some TokLParen
      else if ch = CHR '')'' then Some TokRParen
      else if ch = CHR '','' then Some TokComma
      else None)"

definition two_char :: "string \<Rightarrow> TokenType option" where
  "two_char two =
     (if two = ''=='' then Some TokEq
      else if two = ''!='' then Some TokNeq
      else if two = ''<='' then Some TokLe
      else if two = ''>='' then Some TokGe
      else None)"

function Lex_loop :: "string \<Rightarrow> nat \<Rightarrow> Token list \<Rightarrow> error + Token list" where
  "Lex_loop input i tokens =
     (if \<not> i < length input then Inr (tokens @ [mkTok TokEOF [] (length input)])
      else if IsSpace (input ! i) then Lex_loop input (i + 1) tokens
      else if IsDigit (input ! i) then
        Lex_loop input (scan IsDigit input i)
          (tokens @ [mkTok TokInt (slice input i (scan IsDigit input i)) i])
      else if IsLetter (input ! i) \<or> input ! i = CHR ''_'' then
        (let j = scan (\<lambda>c. IsLetter c \<or> IsDigit c \<or> c = CHR ''_'') input i;
             word = slice input i j
         in case keywordTable word of
              Some tt \<Rightarrow> Lex_loop input j (tokens @ [mkTok tt word i])
            | None \<Rightarrow> Lex_loop input j (tokens @ [mkTok TokIdent word i]))
      else (case (if i + 1 < length input then two_char (slice input i (i + 2)) else None) of
              Some tt \<Rightarrow> Lex_loop input (i + 2) (tokens @ [mkTok tt (slice input i (i + 2)) i])
            | None \<Rightarrow>
               (case single_char (input ! i) of
                  Some tt \<Rightarrow> Lex_loop input (i + 1) (tokens @ [mkTok tt [input ! i] i])
                | None \<Rightarrow>
                    Inl (Errorf ''unexpected character %q at position %d''
                           [S [input ! i], I (int i)]))))"
  by pat_completeness auto
termination
  by (relation "measure (\<lambda>(input, i, tokens). length input - i)")
     (auto simp: scan_gt intro!: diff_less_mono2)

declare Lex_loop.simps [simp del]

definition Lex :: "string \<Rightarrow> error + Token list" where
  "Lex input = Lex_loop input 0 []"

subsection \<open>expr/parser.go\<close>

datatype NodeType = NodeLitInt | NodeLitBool | NodeVar | NodeNot | NodeAnd | NodeOr | NodeEq
  | NodeNeq | NodeLt | NodeLe | NodeGt | NodeGe | NodeAdd | NodeSub | NodeMul | NodeDiv
  | NodeMod | NodeIf | NodeCall

datatype Node = Node (nType: NodeType) (IntVal: int) (BoolVal: bool) (nName: string)
  (Children: "Node list")

text \<open>\<open>&Node{Type: t, Children: cs}\<close>: the other fields are zero.\<close>

definition mkNode :: "NodeType \<Rightarrow> Node list \<Rightarrow> Node" where
  "mkNode t cs = Node t 0 False [] cs"

definition peek :: "Token list \<Rightarrow> nat \<Rightarrow> Token" where
  "peek ts pos = (if pos \<ge> length ts then mkTok TokEOF [] 0 else ts ! pos)"

definition expect :: "Token list \<Rightarrow> nat \<Rightarrow> TokenType \<Rightarrow> error + (Token \<times> nat)" where
  "expect ts pos tt =
     (let t = peek ts pos in
      if tType t \<noteq> tt then
        Inl (Errorf ''expected %d, got %q at position %d'' [S (tVal t), I (int (tPos t))])
      else Inr (t, pos + 1))"

definition precOr :: nat where "precOr = 1"
definition precAnd :: nat where "precAnd = 2"
definition precCompare :: nat where "precCompare = 3"
definition precAdd :: nat where "precAdd = 4"
definition precMul :: nat where "precMul = 5"

fun infixInfo :: "TokenType \<Rightarrow> (nat \<times> NodeType) option" where
  "infixInfo TokOr = Some (precOr, NodeOr)"
| "infixInfo TokAnd = Some (precAnd, NodeAnd)"
| "infixInfo TokEq = Some (precCompare, NodeEq)"
| "infixInfo TokNeq = Some (precCompare, NodeNeq)"
| "infixInfo TokLt = Some (precCompare, NodeLt)"
| "infixInfo TokLe = Some (precCompare, NodeLe)"
| "infixInfo TokGt = Some (precCompare, NodeGt)"
| "infixInfo TokGe = Some (precCompare, NodeGe)"
| "infixInfo TokPlus = Some (precAdd, NodeAdd)"
| "infixInfo TokMinus = Some (precAdd, NodeSub)"
| "infixInfo TokStar = Some (precMul, NodeMul)"
| "infixInfo TokSlash = Some (precMul, NodeDiv)"
| "infixInfo TokPercent = Some (precMul, NodeMod)"
| "infixInfo _ = None"

definition isBuiltin :: "string \<Rightarrow> bool" where
  "isBuiltin name = (name = ''min'' \<or> name = ''max'' \<or> name = ''clamp'')"

text \<open>\<open>strconv.Atoi\<close>, modelled from the Go library: an optional sign and decimal
  digits; a value outside the 64-bit range is an error.\<close>

fun digits_value :: "string \<Rightarrow> int \<Rightarrow> int option" where
  "digits_value [] acc = Some acc"
| "digits_value (c # cs) acc =
     (if IsDigit c then digits_value cs (10 * acc + (int (of_char c) - 48)) else None)"

definition Atoi :: "string \<Rightarrow> int option" where
  "Atoi s =
     (let (neg, ds) = (case s of
                         c # r \<Rightarrow> if c = CHR ''-'' then (True, r)
                                  else if c = CHR ''+'' then (False, r) else (False, s)
                       | [] \<Rightarrow> (False, s))
      in if ds = [] then None
         else (case digits_value ds 0 of
                 None \<Rightarrow> None
               | Some v \<Rightarrow>
                   (let r = (if neg then - v else v)
                    in if r < - (2 ^ 63) \<or> 2 ^ 63 - 1 < r then None else Some r)))"

text \<open>The parser is a recursive descent over the token slice and the position \<open>p.pos\<close>.
  Each function returns the node and the position after it. The first argument bounds the
  depth of the recursion; \<open>Parse\<close> starts with a bound that is never reached.\<close>

function (sequential) parseExpr :: "nat \<Rightarrow> Token list \<Rightarrow> nat \<Rightarrow> nat \<Rightarrow> error + (Node \<times> nat)"
  and parseExpr_loop :: "nat \<Rightarrow> Token list \<Rightarrow> nat \<Rightarrow> Node \<Rightarrow> nat \<Rightarrow> error + (Node \<times> nat)"
  and parseUnary :: "nat \<Rightarrow> Token list \<Rightarrow> nat \<Rightarrow> error + (Node \<times> nat)"
  and parseAtom :: "nat \<Rightarrow> Token list \<Rightarrow> nat \<Rightarrow> error + (Node \<times> nat)"
  and parseCall :: "nat \<Rightarrow> Token list \<Rightarrow> string \<Rightarrow> nat \<Rightarrow> error + (Node \<times> nat)"
  and parseCall_loop :: "nat \<Rightarrow> Token list \<Rightarrow> Node list \<Rightarrow> nat \<Rightarrow> error + (Node list \<times> nat)"
where
  "parseExpr 0 ts minPrec pos = Inl Panic"
| "parseExpr (Suc n) ts minPrec pos =
     bind (parseUnary n ts pos) (\<lambda>(left, pos1). parseExpr_loop n ts minPrec left pos1)"
| "parseExpr_loop 0 ts minPrec left pos = Inl Panic"
| "parseExpr_loop (Suc n) ts minPrec left pos =
     (case infixInfo (tType (peek ts pos)) of
        None \<Rightarrow> Inr (left, pos)
      | Some (prec, nodeType) \<Rightarrow>
          if prec < minPrec then Inr (left, pos)
          else if tType (peek ts pos) = TokIf then Inr (left, pos)
          else bind (parseExpr n ts (prec + 1) (pos + 1))
                 (\<lambda>(right, pos2). parseExpr_loop n ts minPrec (mkNode nodeType [left, right]) pos2))"
| "parseUnary 0 ts pos = Inl Panic"
| "parseUnary (Suc n) ts pos =
     (if tType (peek ts pos) = TokNot then
        bind (parseUnary n ts (pos + 1)) (\<lambda>(operand, pos1). Inr (mkNode NodeNot [operand], pos1))
      else if tType (peek ts pos) = TokIf then
        bind (parseExpr n ts 0 (pos + 1)) (\<lambda>(cond, pos1).
          case expect ts pos1 TokThen of
            Inl e \<Rightarrow> Inl (Errorf ''expected then in if-then-else'' [])
          | Inr (t, pos2) \<Rightarrow>
              bind (parseExpr n ts 0 pos2) (\<lambda>(thn, pos3).
                case expect ts pos3 TokElse of
                  Inl e \<Rightarrow> Inl (Errorf ''expected else in if-then-else'' [])
                | Inr (t, pos4) \<Rightarrow>
                    bind (parseExpr n ts 0 pos4) (\<lambda>(els, pos5).
                      Inr (mkNode NodeIf [cond, thn, els], pos5))))
      else if tType (peek ts pos) = TokMinus then
        bind (parseUnary n ts (pos + 1)) (\<lambda>(operand, pos1).
          Inr (mkNode NodeSub [Node NodeLitInt 0 False [] [], operand], pos1))
      else parseAtom n ts pos)"
| "parseAtom 0 ts pos = Inl Panic"
| "parseAtom (Suc n) ts pos =
     (let tok = peek ts pos in
      if tType tok = TokInt then
        (case Atoi (tVal tok) of
           None \<Rightarrow> Inl (Errorf ''invalid integer %q'' [S (tVal tok)])
         | Some v \<Rightarrow> Inr (Node NodeLitInt v False [] [], pos + 1))
      else if tType tok = TokTrue then Inr (Node NodeLitBool 0 True [] [], pos + 1)
      else if tType tok = TokFalse then Inr (Node NodeLitBool 0 False [] [], pos + 1)
      else if tType tok = TokIdent then
        (if tType (peek ts (pos + 1)) = TokLParen \<and> isBuiltin (tVal tok)
         then parseCall n ts (tVal tok) (pos + 1)
         else Inr (Node NodeVar 0 False (tVal tok) [], pos + 1))
      else if tType tok = TokLParen then
        bind (parseExpr n ts 0 (pos + 1)) (\<lambda>(e, pos2).
          case expect ts pos2 TokRParen of
            Inl er \<Rightarrow> Inl (Errorf ''expected closing )'' [])
          | Inr (t, pos3) \<Rightarrow> Inr (e, pos3))
      else Inl (Errorf ''unexpected token %q at position %d'' [S (tVal tok), I (int (tPos tok))]))"
| "parseCall 0 ts name pos = Inl Panic"
| "parseCall (Suc n) ts name pos =
     bind (parseCall_loop n ts [] (pos + 1)) (\<lambda>(args, pos1).
       case expect ts pos1 TokRParen of
         Inl er \<Rightarrow> Inl (Errorf ''expected ) after %s arguments'' [S name])
       | Inr (t, pos2) \<Rightarrow>
           if (name = ''min'' \<or> name = ''max'') \<and> length args \<noteq> 2 then
             Inl (Errorf ''%s requires 2 arguments, got %d'' [S name, I (int (length args))])
           else if name = ''clamp'' \<and> length args \<noteq> 3 then
             Inl (Errorf ''clamp requires 3 arguments, got %d'' [I (int (length args))])
           else Inr (Node NodeCall 0 False name args, pos2))"
| "parseCall_loop 0 ts args pos = Inl Panic"
| "parseCall_loop (Suc n) ts args pos =
     bind (parseExpr n ts 0 pos) (\<lambda>(arg, pos1).
       if tType (peek ts pos1) = TokComma then parseCall_loop n ts (args @ [arg]) (pos1 + 1)
       else Inr (args @ [arg], pos1))"

  by pat_completeness auto
termination
  by (relation "measure (case_sum (case_sum (\<lambda>(n, r). n) (case_sum (\<lambda>(n, r). n) (\<lambda>(n, r). n)))
                                  (case_sum (\<lambda>(n, r). n) (case_sum (\<lambda>(n, r). n) (\<lambda>(n, r). n))))")
     auto


definition Parse :: "string \<Rightarrow> error + Node" where
  "Parse input =
     bind (Lex input) (\<lambda>tokens.
       bind (parseExpr (3 * length tokens + 3) tokens 0 0) (\<lambda>(node, pos).
         if tType (peek tokens pos) \<noteq> TokEOF then
           Inl (Errorf ''unexpected token %q at position %d''
                  [S (tVal (peek tokens pos)), I (int (tPos (peek tokens pos)))])
         else Inr node))"

subsection \<open>expr/eval.go\<close>

datatype Value = VInt int | VBool bool

record Env =
  envSchema :: Schema
  envState :: State
  envEnumLiterals :: "(string \<times> int) list"

definition NewEnv :: "Schema \<Rightarrow> State \<Rightarrow> (string \<times> int) list \<Rightarrow> Env" where
  "NewEnv schema state enumLiterals =
     \<lparr>envSchema = schema, envState = state, envEnumLiterals = enumLiterals\<rparr>"

text \<open>\<open>BuildEnumLiterals\<close>: the inner loop over the values of one enum, then the loop
  over the variables.\<close>

fun enumValues_loop ::
  "string list \<Rightarrow> string list \<Rightarrow> int \<Rightarrow> (string \<times> int) list \<Rightarrow> error + (string \<times> int) list"
where
  "enumValues_loop varNames [] idx literals = Inr literals"
| "enumValues_loop varNames (lit # lits) idx literals =
     (if lit \<in> set varNames then
        Inl (Errorf ''enum literal %q conflicts with variable name'' [S lit])
      else if map_of literals lit \<noteq> None then
        Inl (Errorf ''enum literal %q appears in multiple enums'' [S lit])
      else enumValues_loop varNames lits (idx + 1) (AList.update lit idx literals))"

fun BuildEnumLiterals_loop ::
  "string list \<Rightarrow> VarDef list \<Rightarrow> (string \<times> int) list \<Rightarrow> error + (string \<times> int) list"
where
  "BuildEnumLiterals_loop varNames [] literals = Inr literals"
| "BuildEnumLiterals_loop varNames (v # vs) literals =
     (if vType v \<noteq> TypeEnum then BuildEnumLiterals_loop varNames vs literals
      else bind (enumValues_loop varNames (vValues v) 0 literals)
             (\<lambda>literals'. BuildEnumLiterals_loop varNames vs literals'))"

definition BuildEnumLiterals :: "Schema \<Rightarrow> error + (string \<times> int) list" where
  "BuildEnumLiterals schema = BuildEnumLiterals_loop (map vName (Vars schema)) (Vars schema) []"

text \<open>\<open>case NodeVar\<close> of \<open>Eval\<close>.\<close>

definition evalVar :: "string \<Rightarrow> Env \<Rightarrow> error + Value" where
  "evalVar name env =
     (let idx = VarIndex (envSchema env) name in
      if idx \<ge> 0 then
        bind (at (Vars (envSchema env)) idx) (\<lambda>v.
          bind (at (envState env) idx) (\<lambda>x.
            case vType v of
              TypeBool \<Rightarrow> Inr (VBool (x = 1))
            | TypeEnum \<Rightarrow> Inr (VInt x)
            | TypeInt \<Rightarrow> Inr (VInt x)))
      else (case map_of (envEnumLiterals env) name of
              Some val \<Rightarrow> Inr (VInt val)
            | None \<Rightarrow> Inl (Errorf ''undefined identifier %q'' [S name])))"

text \<open>The operator cases of \<open>Eval\<close>, after both operands are evaluated.\<close>

definition evalAnd :: "Value \<Rightarrow> Value \<Rightarrow> error + Value" where
  "evalAnd left right =
     (case (left, right) of
        (VBool l, VBool r) \<Rightarrow> Inr (VBool (l \<and> r))
      | _ \<Rightarrow> Inl (Errorf ''and requires bool operands'' []))"

definition evalOr :: "Value \<Rightarrow> Value \<Rightarrow> error + Value" where
  "evalOr left right =
     (case (left, right) of
        (VBool l, VBool r) \<Rightarrow> Inr (VBool (l \<or> r))
      | _ \<Rightarrow> Inl (Errorf ''or requires bool operands'' []))"

definition evalEquality :: "NodeType \<Rightarrow> Value \<Rightarrow> Value \<Rightarrow> error + Value" where
  "evalEquality t left right =
     (case (left, right) of
        (VBool l, VBool r) \<Rightarrow> Inr (VBool (if t = NodeNeq then \<not> (l = r) else l = r))
      | (VInt l, VInt r) \<Rightarrow> Inr (VBool (if t = NodeNeq then \<not> (l = r) else l = r))
      | _ \<Rightarrow> Inl (Errorf ''type mismatch in equality comparison'' []))"

definition evalComparison :: "NodeType \<Rightarrow> Value \<Rightarrow> Value \<Rightarrow> error + Value" where
  "evalComparison t left right =
     (case (left, right) of
        (VInt l, VInt r) \<Rightarrow>
          Inr (VBool (if t = NodeLt then l < r
                      else if t = NodeLe then l \<le> r
                      else if t = NodeGt then l > r
                      else l \<ge> r))
      | _ \<Rightarrow> Inl (Errorf ''comparison requires int operands'' []))"

definition evalArithmetic :: "NodeType \<Rightarrow> Value \<Rightarrow> Value \<Rightarrow> error + Value" where
  "evalArithmetic t left right =
     (case (left, right) of
        (VInt l, VInt r) \<Rightarrow>
          if t = NodeAdd then Inr (VInt (wrap64 (l + r)))
          else if t = NodeSub then Inr (VInt (wrap64 (l - r)))
          else if t = NodeMul then Inr (VInt (wrap64 (l * r)))
          else if t = NodeDiv then
            (if r = 0 then Inl (Errorf ''division by zero'' []) else Inr (VInt (wrap64 (l sdiv r))))
          else (if r = 0 then Inl (Errorf ''modulo by zero'' []) else Inr (VInt (l smod r)))
      | _ \<Rightarrow> Inl (Errorf ''arithmetic requires int operands'' []))"

definition evalMin :: "Value \<Rightarrow> Value \<Rightarrow> error + Value" where
  "evalMin a b =
     (case (a, b) of
        (VInt x, VInt y) \<Rightarrow> if x < y then Inr a else Inr b
      | _ \<Rightarrow> Inl (Errorf ''min requires int arguments'' []))"

definition evalMax :: "Value \<Rightarrow> Value \<Rightarrow> error + Value" where
  "evalMax a b =
     (case (a, b) of
        (VInt x, VInt y) \<Rightarrow> if x > y then Inr a else Inr b
      | _ \<Rightarrow> Inl (Errorf ''max requires int arguments'' []))"

definition evalClamp :: "Value \<Rightarrow> Value \<Rightarrow> Value \<Rightarrow> error + Value" where
  "evalClamp lo x hi =
     (case (lo, x, hi) of
        (VInt l, VInt v, VInt h) \<Rightarrow>
          (let v1 = (if v < l then l else v); v2 = (if v1 > h then h else v1) in Inr (VInt v2))
      | _ \<Rightarrow> Inl (Errorf ''clamp requires int arguments'' []))"

lemma bind_cong [fundef_cong]:
  "m = m' \<Longrightarrow> (\<And>x. m' = Inr x \<Longrightarrow> f x = f' x) \<Longrightarrow> bind m f = bind m' f'"
  by (auto simp: bind_def split: sum.splits)

text \<open>\<open>Eval\<close>: the \<open>switch node.Type\<close>; \<open>node.Children[i]\<close> on a missing child is an
  index out of range.\<close>

fun Eval :: "Node \<Rightarrow> Env \<Rightarrow> error + Value" where
  "Eval (Node t iv bv name cs) env =
     (if t = NodeLitInt then Inr (VInt iv)
      else if t = NodeLitBool then Inr (VBool bv)
      else if t = NodeVar then evalVar name env
      else if t = NodeNot then
        (case cs of
           [] \<Rightarrow> Inl Panic
         | c # cs' \<Rightarrow>
             bind (Eval c env) (\<lambda>v.
               case v of VBool b \<Rightarrow> Inr (VBool (\<not> b))
                       | VInt i \<Rightarrow> Inl (Errorf ''not requires bool operand'' [])))
      else if t = NodeIf then
        (case cs of
           [] \<Rightarrow> Inl Panic
         | c # cs' \<Rightarrow>
             bind (Eval c env) (\<lambda>cond.
               case cond of
                 VInt i \<Rightarrow> Inl (Errorf ''if condition must be bool'' [])
               | VBool b \<Rightarrow>
                   if b then (case cs' of [] \<Rightarrow> Inl Panic | thn # cs'' \<Rightarrow> Eval thn env)
                   else (case cs' of thn # els # cs'' \<Rightarrow> Eval els env | _ \<Rightarrow> Inl Panic)))
      else if t = NodeCall then
        (if name = ''min'' \<or> name = ''max'' then
           (case cs of
              [] \<Rightarrow> Inl Panic
            | c0 # cs' \<Rightarrow>
                bind (Eval c0 env) (\<lambda>a.
                  case cs' of
                    [] \<Rightarrow> Inl Panic
                  | c1 # cs'' \<Rightarrow>
                      bind (Eval c1 env) (\<lambda>b. if name = ''min'' then evalMin a b else evalMax a b)))
         else if name = ''clamp'' then
           (case cs of
              [] \<Rightarrow> Inl Panic
            | c0 # cs' \<Rightarrow>
                bind (Eval c0 env) (\<lambda>lo.
                  case cs' of
                    [] \<Rightarrow> Inl Panic
                  | c1 # cs'' \<Rightarrow>
                      bind (Eval c1 env) (\<lambda>x.
                        case cs'' of
                          [] \<Rightarrow> Inl Panic
                        | c2 # cs''' \<Rightarrow> bind (Eval c2 env) (\<lambda>hi. evalClamp lo x hi))))
         else Inl (Errorf ''unknown function %q'' [S name]))
      else
        (case cs of
           [] \<Rightarrow> Inl Panic
         | c0 # cs' \<Rightarrow>
             bind (Eval c0 env) (\<lambda>left.
               case cs' of
                 [] \<Rightarrow> Inl Panic
               | c1 # cs'' \<Rightarrow>
                   bind (Eval c1 env) (\<lambda>right.
                     if t = NodeAnd then evalAnd left right
                     else if t = NodeOr then evalOr left right
                     else if t = NodeEq \<or> t = NodeNeq then evalEquality t left right
                     else if t = NodeLt \<or> t = NodeLe \<or> t = NodeGt \<or> t = NodeGe
                       then evalComparison t left right
                     else evalArithmetic t left right))))"

definition EvalBool :: "Node \<Rightarrow> Env \<Rightarrow> error + bool" where
  "EvalBool node env =
     bind (Eval node env) (\<lambda>v.
       case v of VBool b \<Rightarrow> Inr b
               | VInt i \<Rightarrow> Inl (Errorf ''expected bool expression, got int'' []))"

subsection \<open>verify: the compiler\<close>

record CompiledRegistry =
  Reg :: Registry
  Schema :: Schema
  EnumLiterals :: "(string \<times> int) list"
  InvExprs :: "Node list"
  RepExprs :: "(int \<times> Node) list list"
  EvtGuards :: "Node option list"
  EvtExprs :: "(int \<times> Node) list list"
  Valid :: "bool list"
  NF :: "StateID list"
  Step :: "StateID list list"

definition MaxStates :: int where "MaxStates = 1000000"
definition MaxRepairIter :: nat where "MaxRepairIter = 1000"

fun parseInvariants :: "Invariant list \<Rightarrow> error + Node list" where
  "parseInvariants [] = Inr []"
| "parseInvariants (invt # invs) =
     bind (wrapf ''invariant %q: %w'' [S (iName invt)] (Parse (iExpr invt))) (\<lambda>node.
       bind (parseInvariants invs) (\<lambda>nodes. Inr (node # nodes)))"

text \<open>The loop over \<open>rep.Assignments\<close>; \<open>target\<close> is \<open>rep.Invariant\<close>, which only the
  error messages use.\<close>

fun parseRepairAssignments ::
  "Schema \<Rightarrow> string \<Rightarrow> (string \<times> string) list \<Rightarrow> (int \<times> Node) list \<Rightarrow> error + (int \<times> Node) list"
where
  "parseRepairAssignments schema target [] repMap = Inr repMap"
| "parseRepairAssignments schema target ((varName, exprStr) # rest) repMap =
     (if VarIndex schema varName < 0 then
        Inl (Errorf ''repair for %q: unknown variable %q'' [S target, S varName])
      else bind (wrapf ''repair for %q, var %q: %w'' [S target, S varName] (Parse exprStr)) (\<lambda>node.
             parseRepairAssignments schema target rest
               (AList.update (VarIndex schema varName) node repMap)))"

fun parseRepairs :: "Schema \<Rightarrow> Repair list \<Rightarrow> error + (int \<times> Node) list list" where
  "parseRepairs schema [] = Inr []"
| "parseRepairs schema (rep # reps) =
     bind (parseRepairAssignments schema (rInvariant rep) (rAssignments rep) []) (\<lambda>repMap.
       bind (parseRepairs schema reps) (\<lambda>repMaps. Inr (repMap # repMaps)))"

fun parseEventAssignments ::
  "Schema \<Rightarrow> string \<Rightarrow> (string \<times> string) list \<Rightarrow> (int \<times> Node) list \<Rightarrow> error + (int \<times> Node) list"
where
  "parseEventAssignments schema evt [] evtMap = Inr evtMap"
| "parseEventAssignments schema evt ((varName, exprStr) # rest) evtMap =
     (if VarIndex schema varName < 0 then
        Inl (Errorf ''event %q: unknown variable %q'' [S evt, S varName])
      else bind (wrapf ''event %q, var %q: %w'' [S evt, S varName] (Parse exprStr)) (\<lambda>node.
             parseEventAssignments schema evt rest
               (AList.update (VarIndex schema varName) node evtMap)))"

fun parseEvents ::
  "Schema \<Rightarrow> Event list \<Rightarrow> error + (Node option list \<times> (int \<times> Node) list list)"
where
  "parseEvents schema [] = Inr ([], [])"
| "parseEvents schema (evt # evts) =
     bind (if eGuard evt \<noteq> [] then
             bind (wrapf ''event %q guard: %w'' [S (eName evt)] (Parse (eGuard evt)))
               (\<lambda>g. Inr (Some g))
           else Inr None) (\<lambda>guard.
       bind (parseEventAssignments schema (eName evt) (eAssignments evt) []) (\<lambda>evtMap.
         bind (parseEvents schema evts) (\<lambda>(guards, evtMaps).
           Inr (guard # guards, evtMap # evtMaps))))"

definition Compile :: "Registry \<Rightarrow> error + CompiledRegistry" where
  "Compile reg =
     (let schema = NewSchema (gVars reg) in
      if TotalLen schema > MaxStates then
        Inl (Errorf ''state space too large: %d (max %d)'' [I (TotalLen schema), I MaxStates])
      else
        bind (BuildEnumLiterals schema) (\<lambda>enumLiterals.
          bind (parseInvariants (Invariants reg)) (\<lambda>invExprs.
            bind (parseRepairs schema (Compensation reg)) (\<lambda>repExprs.
              bind (parseEvents schema (Events reg)) (\<lambda>(evtGuards, evtExprs).
                Inr \<lparr>Reg = reg, Schema = schema, EnumLiterals = enumLiterals,
                     InvExprs = invExprs, RepExprs = repExprs,
                     EvtGuards = evtGuards, EvtExprs = evtExprs,
                     Valid = [], NF = [], Step = []\<rparr>)))))"

subsection \<open>verify: evaluation helpers\<close>

definition makeEnv :: "CompiledRegistry \<Rightarrow> State \<Rightarrow> Env" where
  "makeEnv cr st = NewEnv (Schema cr) st (EnumLiterals cr)"

fun evalValid_loop :: "Node list \<Rightarrow> Env \<Rightarrow> error + bool" where
  "evalValid_loop [] env = Inr True"
| "evalValid_loop (invExpr # rest) env =
     bind (EvalBool invExpr env) (\<lambda>v. if \<not> v then Inr False else evalValid_loop rest env)"

definition evalValid :: "CompiledRegistry \<Rightarrow> State \<Rightarrow> error + bool" where
  "evalValid cr st = evalValid_loop (InvExprs cr) (makeEnv cr st)"

definition evalGuard :: "CompiledRegistry \<Rightarrow> int \<Rightarrow> State \<Rightarrow> error + bool" where
  "evalGuard cr evtIdx st =
     bind (at (EvtGuards cr) evtIdx) (\<lambda>guard.
       case guard of
         None \<Rightarrow> Inr True
       | Some g \<Rightarrow> EvalBool g (makeEnv cr st))"

text \<open>\<open>applyAssignments\<close>: \<open>post\<close> starts as a copy of \<open>st\<close>; every right-hand side is
  evaluated in the environment of \<open>st\<close>.\<close>

fun applyAssignments_loop ::
  "CompiledRegistry \<Rightarrow> State \<Rightarrow> (int \<times> Node) list \<Rightarrow> State \<Rightarrow> error + State"
where
  "applyAssignments_loop cr st [] post = Inr post"
| "applyAssignments_loop cr st ((varIdx, exprNode) # rest) post =
     bind (Eval exprNode (makeEnv cr st)) (\<lambda>val.
       bind (at (Vars (Schema cr)) varIdx) (\<lambda>v.
         case vType v of
           TypeBool \<Rightarrow>
             (case val of
                VInt i \<Rightarrow> Inl (Errorf ''assignment to bool %q requires bool value'' [S (vName v)])
              | VBool b \<Rightarrow>
                  bind (set_at post varIdx (if b then 1 else 0))
                    (applyAssignments_loop cr st rest))
         | TypeEnum \<Rightarrow>
             (case val of
                VBool b \<Rightarrow> Inl (Errorf ''assignment to enum %q requires enum value'' [S (vName v)])
              | VInt i \<Rightarrow>
                  if i < 0 \<or> i \<ge> vSize v then
                    Inl (Errorf ''assignment to enum %q: value %d out of range [0, %d)''
                           [S (vName v), I i, I (vSize v)])
                  else bind (set_at post varIdx i) (applyAssignments_loop cr st rest))
         | TypeInt \<Rightarrow>
             (case val of
                VBool b \<Rightarrow> Inl (Errorf ''assignment to int %q requires int value'' [S (vName v)])
              | VInt i \<Rightarrow>
                  if i < vMin v \<or> i > vMax v then
                    Inl (Errorf
                      ''SPEC ERROR: assignment to %q computed value %d, allowed range [%d, %d] in state %s''
                      [S (vName v), I i, I (vMin v), I (vMax v), St st])
                  else bind (set_at post varIdx i) (applyAssignments_loop cr st rest))))"

definition applyAssignments ::
  "CompiledRegistry \<Rightarrow> (int \<times> Node) list \<Rightarrow> State \<Rightarrow> error + State"
where
  "applyAssignments cr assignments st = applyAssignments_loop cr st assignments st"

definition applyEvent :: "CompiledRegistry \<Rightarrow> int \<Rightarrow> State \<Rightarrow> error + State" where
  "applyEvent cr evtIdx st = bind (at (EvtExprs cr) evtIdx) (\<lambda>m. applyAssignments cr m st)"

definition applyRepair :: "CompiledRegistry \<Rightarrow> int \<Rightarrow> State \<Rightarrow> error + State" where
  "applyRepair cr repIdx st = bind (at (RepExprs cr) repIdx) (\<lambda>m. applyAssignments cr m st)"

subsection \<open>verify: normal forms\<close>

text \<open>The inner loop of \<open>computeNF\<close> from invariant \<open>ri\<close> on: \<open>Some\<close> of the next
  state ID when a repair fired (\<open>repaired = true; break\<close>), \<open>None\<close> when no invariant
  failed.\<close>

fun repairScan ::
  "CompiledRegistry \<Rightarrow> State \<Rightarrow> Node list \<Rightarrow> int \<Rightarrow> error + StateID option"
where
  "repairScan cr st [] ri = Inr None"
| "repairScan cr st (invExpr # rest) ri =
     bind (EvalBool invExpr (makeEnv cr st)) (\<lambda>v.
       if \<not> v then
         (if ri \<ge> int (length (RepExprs cr)) then
            bind (at (Invariants (Reg cr)) ri) (\<lambda>invt.
              Inl (Errorf ''no repair defined for invariant %q'' [S (iName invt)]))
          else bind (applyRepair cr ri st) (\<lambda>newSt.
                 bind (Encode (Schema cr) newSt) (\<lambda>next. Inr (Some next))))
       else repairScan cr st rest (ri + 1))"

function computeNF_loop ::
  "CompiledRegistry \<Rightarrow> StateID \<Rightarrow> nat \<Rightarrow> StateID \<Rightarrow> error + StateID"
where
  "computeNF_loop cr sid iter current =
     (if \<not> iter < MaxRepairIter then
        bind (Decode (Schema cr) sid) (\<lambda>st.
          Inl (Errorf ''compensation did not terminate within %d steps from state %s''
                 [I (int MaxRepairIter), St st]))
      else
        bind (at (Valid cr) current) (\<lambda>valid.
          if valid then Inr current
          else
            bind (Decode (Schema cr) current) (\<lambda>st.
              bind (repairScan cr st (InvExprs cr) 0) (\<lambda>r.
                case r of
                  None \<Rightarrow> Inr current
                | Some next \<Rightarrow> computeNF_loop cr sid (iter + 1) next))))"
  by pat_completeness auto
termination
  by (relation "measure (\<lambda>(cr, sid, iter, current). MaxRepairIter - iter)") auto

declare computeNF_loop.simps [simp del]

definition computeNF :: "CompiledRegistry \<Rightarrow> StateID \<Rightarrow> error + StateID" where
  "computeNF cr sid = computeNF_loop cr sid 0 sid"

text \<open>The inner loop of \<open>repairDepth\<close>: as in \<open>computeNF\<close>, without the check that the
  repair exists.\<close>

fun depthScan ::
  "CompiledRegistry \<Rightarrow> State \<Rightarrow> Node list \<Rightarrow> int \<Rightarrow> error + StateID option"
where
  "depthScan cr st [] ri = Inr None"
| "depthScan cr st (invExpr # rest) ri =
     bind (EvalBool invExpr (makeEnv cr st)) (\<lambda>v.
       if \<not> v then
         bind (applyRepair cr ri st) (\<lambda>newSt.
           bind (Encode (Schema cr) newSt) (\<lambda>next. Inr (Some next)))
       else depthScan cr st rest (ri + 1))"

function repairDepth_loop :: "CompiledRegistry \<Rightarrow> nat \<Rightarrow> StateID \<Rightarrow> error + int" where
  "repairDepth_loop cr depth current =
     (if \<not> depth < MaxRepairIter then Inl (Errorf ''repair did not terminate'' [])
      else
        bind (at (Valid cr) current) (\<lambda>valid.
          if valid then Inr (int depth)
          else
            bind (Decode (Schema cr) current) (\<lambda>st.
              bind (depthScan cr st (InvExprs cr) 0) (\<lambda>r.
                case r of
                  None \<Rightarrow> Inr (int depth)
                | Some next \<Rightarrow> repairDepth_loop cr (depth + 1) next))))"
  by pat_completeness auto
termination
  by (relation "measure (\<lambda>(cr, depth, current). MaxRepairIter - depth)") auto

declare repairDepth_loop.simps [simp del]

definition repairDepth :: "CompiledRegistry \<Rightarrow> StateID \<Rightarrow> error + int" where
  "repairDepth cr sid = repairDepth_loop cr 0 sid"

subsection \<open>verify: the table builder\<close>

text \<open>A loop that fills one table cell per index, in order, and returns at the first
  error.\<close>

fun fill :: "('a \<Rightarrow> error + 'b) \<Rightarrow> 'a list \<Rightarrow> error + 'b list" where
  "fill f [] = Inr []"
| "fill f (x # xs) = bind (f x) (\<lambda>y. bind (fill f xs) (\<lambda>ys. Inr (y # ys)))"

text \<open>\<open>for sid := 0; sid < n; sid++\<close>\<close>

definition stateIDs :: "int \<Rightarrow> StateID list" where
  "stateIDs n = map int [0..<nat n]"

definition eventName :: "CompiledRegistry \<Rightarrow> int \<Rightarrow> string" where
  "eventName cr ei = (case at (Events (Reg cr)) ei of Inr evt \<Rightarrow> eName evt | Inl e \<Rightarrow> [])"

definition validAt :: "CompiledRegistry \<Rightarrow> StateID \<Rightarrow> error + bool" where
  "validAt cr sid =
     bind (Decode (Schema cr) sid) (\<lambda>st.
       wrapf ''validity check at state %s: %w'' [St st] (evalValid cr st))"

definition nfAt :: "CompiledRegistry \<Rightarrow> StateID \<Rightarrow> error + StateID" where
  "nfAt cr sid =
     (case computeNF cr sid of
        Inr nf \<Rightarrow> Inr nf
      | Inl Panic \<Rightarrow> Inl Panic
      | Inl e \<Rightarrow>
          bind (Decode (Schema cr) sid) (\<lambda>st.
            Inl (Wrapf ''normal form at state %s: %w'' [St st] e)))"

definition stepAt :: "CompiledRegistry \<Rightarrow> int \<Rightarrow> StateID \<Rightarrow> error + StateID" where
  "stepAt cr ei sid =
     bind (Decode (Schema cr) sid) (\<lambda>st.
       bind (wrapf ''event %q guard at state %s: %w'' [S (eventName cr ei), St st]
               (evalGuard cr ei st)) (\<lambda>enabled.
         if \<not> enabled then Inr (- 1)
         else
           bind (wrapf ''event %q at state %s: %w'' [S (eventName cr ei), St st]
                   (applyEvent cr ei st)) (\<lambda>post.
             bind (Encode (Schema cr) post) (\<lambda>postID. at (NF cr) postID))))"

definition BuildTables :: "CompiledRegistry \<Rightarrow> error + CompiledRegistry" where
  "BuildTables cr =
     (let n = TotalLen (Schema cr) in
      if n < 0 then Inl Panic
      else
        bind (fill (validAt cr) (stateIDs n)) (\<lambda>valid.
          bind (fill (nfAt (cr\<lparr>Valid := valid\<rparr>)) (stateIDs n)) (\<lambda>nf.
            bind (fill (\<lambda>ei. fill (stepAt (cr\<lparr>Valid := valid, NF := nf\<rparr>) ei) (stateIDs n))
                    (map int [0..<length (Events (Reg cr))])) (\<lambda>step.
              Inr (cr\<lparr>Valid := valid, NF := nf, Step := step\<rparr>)))))"

subsection \<open>verify: the WFC checker\<close>

text \<open>\<open>badState\<close> is a formatted message; here it is the kind of the violation with the
  state and its normal form.\<close>

datatype BadState = NFNotValid State State | NotFixpoint State State

record WFCResult =
  wfcPass :: bool
  wfcMaxDepth :: int
  wfcBadState :: "BadState option"

text \<open>The first loop of \<open>CheckWFC\<close>: the first violation, if any.\<close>

fun CheckWFC_scan :: "CompiledRegistry \<Rightarrow> StateID list \<Rightarrow> error + BadState option" where
  "CheckWFC_scan cr [] = Inr None"
| "CheckWFC_scan cr (sid # rest) =
     bind (at (NF cr) sid) (\<lambda>nfID.
       bind (at (Valid cr) nfID) (\<lambda>nfValid.
         if \<not> nfValid then
           bind (Decode (Schema cr) sid) (\<lambda>st.
             bind (Decode (Schema cr) nfID) (\<lambda>nfSt. Inr (Some (NFNotValid st nfSt))))
         else
           bind (at (Valid cr) sid) (\<lambda>sidValid.
             if sidValid \<and> nfID \<noteq> sid then
               bind (Decode (Schema cr) sid) (\<lambda>st.
                 bind (Decode (Schema cr) nfID) (\<lambda>nfSt. Inr (Some (NotFixpoint st nfSt))))
             else CheckWFC_scan cr rest)))"

text \<open>The second loop: the largest repair depth.\<close>

fun CheckWFC_depth :: "CompiledRegistry \<Rightarrow> StateID list \<Rightarrow> int \<Rightarrow> error + int" where
  "CheckWFC_depth cr [] maxDepth = Inr maxDepth"
| "CheckWFC_depth cr (sid # rest) maxDepth =
     bind (repairDepth cr sid) (\<lambda>depth.
       CheckWFC_depth cr rest (if depth > maxDepth then depth else maxDepth))"

text \<open>\<open>CheckWFC\<close> returns \<open>(pass, maxDepth, badState, err)\<close>; \<open>Inl\<close> is the return with
  \<open>err\<close> set (or a panic), where \<open>pass\<close> is false.\<close>

definition CheckWFC :: "CompiledRegistry \<Rightarrow> error + WFCResult" where
  "CheckWFC cr =
     bind (CheckWFC_scan cr (stateIDs (TotalLen (Schema cr)))) (\<lambda>bad.
       case bad of
         Some b \<Rightarrow> Inr \<lparr>wfcPass = False, wfcMaxDepth = 0, wfcBadState = Some b\<rparr>
       | None \<Rightarrow>
           bind (CheckWFC_depth cr (stateIDs (TotalLen (Schema cr))) 0) (\<lambda>maxDepth.
             Inr \<lparr>wfcPass = True, wfcMaxDepth = maxDepth, wfcBadState = None\<rparr>))"

subsection \<open>verify: the CC checker\<close>

record CCResult =
  CCPass :: bool
  CC1Pass :: bool
  CC2Pass :: bool
  PairsChecked :: int
  DependentSkipped :: int
  CC1FailEvent1 :: string
  CC1FailEvent2 :: string
  CC1FailState :: "State option"
  CC1FailNF1 :: "State option"
  CC1FailNF2 :: "State option"
  CC2FailEvent :: string
  CC2FailState :: "State option"
  CC2FailNFState :: "State option"
  CC2FailNF1 :: "State option"
  CC2FailNF2 :: "State option"

definition isIdentChar :: "char \<Rightarrow> bool" where
  "isIdentChar b =
     (let n = (of_char b :: nat) in
        (97 \<le> n \<and> n \<le> 122) \<or> (65 \<le> n \<and> n \<le> 90) \<or> (48 \<le> n \<and> n \<le> 57) \<or> b = CHR ''_'')"

text \<open>\<open>strings.Index\<close>, modelled from the Go library: the index of the first occurrence
  of \<open>sub\<close> in \<open>s\<close>, \<open>None\<close> for \<open>-1\<close>.\<close>

fun strings_Index :: "string \<Rightarrow> string \<Rightarrow> nat option" where
  "strings_Index [] sub = (if sub = [] then Some 0 else None)"
| "strings_Index (c # cs) sub =
     (if take (length sub) (c # cs) = sub then Some 0
      else map_option Suc (strings_Index cs sub))"

function containsIdent_loop :: "string \<Rightarrow> string \<Rightarrow> nat \<Rightarrow> error + bool" where
  "containsIdent_loop s ident idx =
     (if idx > length s then Inl Panic
      else
        (case strings_Index (drop idx s) ident of
           None \<Rightarrow> Inr False
         | Some pos \<Rightarrow>
             (let absPos = idx + pos;
                  before = (absPos = 0 \<or> \<not> isIdentChar (s ! (absPos - 1)));
                  after = (absPos + length ident \<ge> length s
                           \<or> \<not> isIdentChar (s ! (absPos + length ident)))
              in if before \<and> after then Inr True
                 else containsIdent_loop s ident (absPos + 1))))"
  by pat_completeness auto
termination
  by (relation "measure (\<lambda>(s, ident, idx). length s + 1 - idx)") auto

declare containsIdent_loop.simps [simp del]

definition containsIdent :: "string \<Rightarrow> string \<Rightarrow> error + bool" where
  "containsIdent s ident = containsIdent_loop s ident 0"

text \<open>The write and read sets of one event (\<open>map[int]bool\<close>): the lists of the variable
  indices set to true.\<close>

record evtSets =
  writes :: "int list"
  reads :: "int list"

text \<open>\<open>for _, v := range cr.Schema.Vars { if containsIdent(str, v.Name) { reads[idx] = true } }\<close>\<close>

fun readVars :: "Schema \<Rightarrow> string \<Rightarrow> VarDef list \<Rightarrow> int list \<Rightarrow> error + int list" where
  "readVars schema str [] rd = Inr rd"
| "readVars schema str (v # vs) rd =
     bind (containsIdent str (vName v)) (\<lambda>c.
       readVars schema str vs (if c then rd @ [VarIndex schema (vName v)] else rd))"

fun readAssignments ::
  "Schema \<Rightarrow> (string \<times> string) list \<Rightarrow> int list \<Rightarrow> error + int list"
where
  "readAssignments schema [] rd = Inr rd"
| "readAssignments schema ((varName, exprStr) # rest) rd =
     bind (readVars schema exprStr (Vars schema) rd) (readAssignments schema rest)"

definition eventSets :: "CompiledRegistry \<Rightarrow> int \<Rightarrow> Event \<Rightarrow> error + evtSets" where
  "eventSets cr ei evt =
     bind (at (EvtExprs cr) ei) (\<lambda>m.
       bind (if eGuard evt \<noteq> [] then readVars (Schema cr) (eGuard evt) (Vars (Schema cr)) []
             else Inr []) (\<lambda>rd.
         bind (readAssignments (Schema cr) (eAssignments evt) rd) (\<lambda>rd'.
           Inr \<lparr>writes = map fst m, reads = rd'\<rparr>)))"

definition allEventSets :: "CompiledRegistry \<Rightarrow> error + evtSets list" where
  "allEventSets cr =
     fill (\<lambda>(ei, evt). eventSets cr ei evt)
       (zip (map int [0..<length (Events (Reg cr))]) (Events (Reg cr)))"

definition isIndependent :: "evtSets list \<Rightarrow> int \<Rightarrow> int \<Rightarrow> error + bool" where
  "isIndependent sets e1 e2 =
     bind (at sets e1) (\<lambda>s1.
       bind (at sets e2) (\<lambda>s2.
         Inr (list_all (\<lambda>w. \<not> (w \<in> set (writes s2) \<or> w \<in> set (reads s2))) (writes s1)
              \<and> list_all (\<lambda>w. \<not> (w \<in> set (writes s1) \<or> w \<in> set (reads s1))) (writes s2))))"

definition stepOf :: "CompiledRegistry \<Rightarrow> int \<Rightarrow> StateID \<Rightarrow> error + StateID" where
  "stepOf cr e sid = bind (at (Step cr) e) (\<lambda>row. at row sid)"

text \<open>The loop of CC1 over the states, for one pair: the first state where the two orders
  differ, with both results.\<close>

fun CC1_states ::
  "CompiledRegistry \<Rightarrow> int \<Rightarrow> int \<Rightarrow> StateID list \<Rightarrow> error + (StateID \<times> StateID \<times> StateID) option"
where
  "CC1_states cr e1 e2 [] = Inr None"
| "CC1_states cr e1 e2 (sid # rest) =
     bind (stepOf cr e1 sid) (\<lambda>s1.
       bind (stepOf cr e2 sid) (\<lambda>s2.
         if s1 = - 1 \<or> s2 = - 1 then CC1_states cr e1 e2 rest
         else
           bind (stepOf cr e2 s1) (\<lambda>r12.
             bind (stepOf cr e1 s2) (\<lambda>r21.
               if r12 = - 1 \<or> r21 = - 1 then CC1_states cr e1 e2 rest
               else if r12 \<noteq> r21 then Inr (Some (sid, r12, r21))
               else CC1_states cr e1 e2 rest))))"

text \<open>The pairs \<open>(e1, e2)\<close> with \<open>e1 < e2\<close>, in the order of the two nested loops.\<close>

definition eventPairs :: "nat \<Rightarrow> (int \<times> int) list" where
  "eventPairs numEvts =
     concat (map (\<lambda>e1. map (\<lambda>e2. (int e1, int e2)) [e1 + 1..<numEvts]) [0..<numEvts])"

fun CC1_pairs ::
  "CompiledRegistry \<Rightarrow> evtSets list \<Rightarrow> (int \<times> int) list \<Rightarrow> CCResult \<Rightarrow> error + CCResult"
where
  "CC1_pairs cr sets [] result = Inr result"
| "CC1_pairs cr sets ((e1, e2) # rest) result =
     (if \<not> CC1Pass result then Inr result
      else
        bind (isIndependent sets e1 e2) (\<lambda>indep.
          if \<not> indep then
            CC1_pairs cr sets rest (result\<lparr>DependentSkipped := DependentSkipped result + 1\<rparr>)
          else
            bind (CC1_states cr e1 e2 (stateIDs (TotalLen (Schema cr)))) (\<lambda>r.
              case r of
                None \<Rightarrow> CC1_pairs cr sets rest (result\<lparr>PairsChecked := PairsChecked result + 1\<rparr>)
              | Some (sid, r12, r21) \<Rightarrow>
                  bind (Decode (Schema cr) sid) (\<lambda>st.
                    bind (Decode (Schema cr) r12) (\<lambda>nf1.
                      bind (Decode (Schema cr) r21) (\<lambda>nf2.
                        CC1_pairs cr sets rest
                          (result\<lparr>PairsChecked := PairsChecked result + 1,
                                  CC1Pass := False,
                                  CC1FailEvent1 := eventName cr e1,
                                  CC1FailEvent2 := eventName cr e2,
                                  CC1FailState := Some st,
                                  CC1FailNF1 := Some nf1,
                                  CC1FailNF2 := Some nf2\<rparr>)))))))"

text \<open>The loop of CC2 over the states, for one event.\<close>

fun CC2_states ::
  "CompiledRegistry \<Rightarrow> int \<Rightarrow> StateID list \<Rightarrow> error + (StateID \<times> StateID \<times> StateID \<times> StateID) option"
where
  "CC2_states cr ei [] = Inr None"
| "CC2_states cr ei (sid # rest) =
     bind (stepOf cr ei sid) (\<lambda>stepRaw.
       if stepRaw = - 1 then CC2_states cr ei rest
       else
         bind (at (NF cr) sid) (\<lambda>nfID.
           bind (stepOf cr ei nfID) (\<lambda>stepNF.
             if stepNF = - 1 then CC2_states cr ei rest
             else if stepRaw \<noteq> stepNF then Inr (Some (sid, nfID, stepRaw, stepNF))
             else CC2_states cr ei rest)))"

fun CC2_events :: "CompiledRegistry \<Rightarrow> int list \<Rightarrow> CCResult \<Rightarrow> error + CCResult" where
  "CC2_events cr [] result = Inr result"
| "CC2_events cr (ei # rest) result =
     (if \<not> CC2Pass result then Inr result
      else
        bind (CC2_states cr ei (stateIDs (TotalLen (Schema cr)))) (\<lambda>r.
          case r of
            None \<Rightarrow> CC2_events cr rest result
          | Some (sid, nfID, stepRaw, stepNF) \<Rightarrow>
              bind (Decode (Schema cr) sid) (\<lambda>st.
                bind (Decode (Schema cr) nfID) (\<lambda>nfSt.
                  bind (Decode (Schema cr) stepRaw) (\<lambda>nf1.
                    bind (Decode (Schema cr) stepNF) (\<lambda>nf2.
                      CC2_events cr rest
                        (result\<lparr>CC2Pass := False,
                                CC2FailEvent := eventName cr ei,
                                CC2FailState := Some st,
                                CC2FailNFState := Some nfSt,
                                CC2FailNF1 := Some nf1,
                                CC2FailNF2 := Some nf2\<rparr>)))))))"

definition emptyCCResult :: CCResult where
  "emptyCCResult =
     \<lparr>CCPass = False, CC1Pass = False, CC2Pass = False, PairsChecked = 0, DependentSkipped = 0,
      CC1FailEvent1 = [], CC1FailEvent2 = [], CC1FailState = None, CC1FailNF1 = None,
      CC1FailNF2 = None, CC2FailEvent = [], CC2FailState = None, CC2FailNFState = None,
      CC2FailNF1 = None, CC2FailNF2 = None\<rparr>"

text \<open>\<open>CheckCC\<close> has no error result; \<open>Inl\<close> is a panic.\<close>

definition CheckCC :: "CompiledRegistry \<Rightarrow> error + CCResult" where
  "CheckCC cr =
     bind (allEventSets cr) (\<lambda>sets.
       bind (CC1_pairs cr sets (eventPairs (length (Events (Reg cr))))
               (emptyCCResult\<lparr>CC1Pass := True\<rparr>)) (\<lambda>r1.
         bind (CC2_events cr (map int [0..<length (Events (Reg cr))]) (r1\<lparr>CC2Pass := True\<rparr>))
           (\<lambda>r2. Inr (r2\<lparr>CCPass := CC1Pass r2 \<and> CC2Pass r2\<rparr>))))"

subsection \<open>main\<close>

text \<open>\<open>main\<close> after the registry is loaded: what the run ends with. A panic crashes the
  process.\<close>

datatype Outcome =
    CompileError error
  | TableBuildError error
  | WFCCheckError error
  | Verdict WFCResult CCResult
  | Crashed

definition exitCode :: "Outcome \<Rightarrow> int" where
  "exitCode out =
     (case out of
        Verdict w c \<Rightarrow> if wfcPass w \<and> CCPass c then 0 else 1
      | Crashed \<Rightarrow> 2
      | _ \<Rightarrow> 1)"

definition main :: "Registry \<Rightarrow> Outcome" where
  "main reg =
     (case Compile reg of
        Inl Panic \<Rightarrow> Crashed
      | Inl e \<Rightarrow> CompileError e
      | Inr cr0 \<Rightarrow>
          (case BuildTables cr0 of
             Inl Panic \<Rightarrow> Crashed
           | Inl e \<Rightarrow> TableBuildError e
           | Inr cr \<Rightarrow>
               (case CheckWFC cr of
                  Inl Panic \<Rightarrow> Crashed
                | Inl e \<Rightarrow> WFCCheckError e
                | Inr w \<Rightarrow>
                    (case CheckCC cr of
                       Inl e \<Rightarrow> Crashed
                     | Inr c \<Rightarrow> Verdict w c))))"

subsection \<open>Example registries\<close>

definition boolVar :: "string \<Rightarrow> VarDef" where
  "boolVar name = \<lparr>vName = name, vType = TypeBool, vValues = [], vMin = 0, vMax = 0, vSize = 2\<rparr>"

definition intVar :: "string \<Rightarrow> int \<Rightarrow> int \<Rightarrow> VarDef" where
  "intVar name lo hi =
     \<lparr>vName = name, vType = TypeInt, vValues = [], vMin = lo, vMax = hi, vSize = wrap64 (wrap64 (hi - lo) + 1)\<rparr>"

definition enumVar :: "string \<Rightarrow> string list \<Rightarrow> VarDef" where
  "enumVar name vals =
     \<lparr>vName = name, vType = TypeEnum, vValues = vals, vMin = 0, vMax = 0,
      vSize = int (length vals)\<rparr>"

definition permissions :: Registry where
  "permissions =
     \<lparr>gName = ''permissions'',
      gVars = [boolVar ''can_read'', boolVar ''can_write''],
      Invariants = [\<lparr>iName = ''write_needs_read'', iExpr = ''not can_write or can_read''\<rparr>],
      Compensation = [\<lparr>rInvariant = ''write_needs_read'',
                       rAssignments = [(''can_write'', ''false'')]\<rparr>],
      Events = [\<lparr>eName = ''grant_read'', eGuard = [], eAssignments = [(''can_read'', ''true'')]\<rparr>,
                \<lparr>eName = ''revoke_read'', eGuard = [], eAssignments = [(''can_read'', ''false'')]\<rparr>,
                \<lparr>eName = ''grant_write'', eGuard = [], eAssignments = [(''can_write'', ''true'')]\<rparr>,
                \<lparr>eName = ''revoke_write'', eGuard = [], eAssignments = [(''can_write'', ''false'')]\<rparr>]\<rparr>"

definition counter :: Registry where
  "counter =
     \<lparr>gName = ''counter'',
      gVars = [intVar ''n'' 0 3],
      Invariants = [\<lparr>iName = ''nonneg'', iExpr = ''n >= 0''\<rparr>],
      Compensation = [\<lparr>rInvariant = ''nonneg'', rAssignments = [(''n'', ''0'')]\<rparr>],
      Events = [\<lparr>eName = ''inc'', eGuard = ''n < 3'', eAssignments = [(''n'', ''n + 1'')]\<rparr>,
                \<lparr>eName = ''dec'', eGuard = ''n > 0'', eAssignments = [(''n'', ''n - 1'')]\<rparr>]\<rparr>"

definition stuck :: Registry where
  "stuck =
     \<lparr>gName = ''stuck'',
      gVars = [boolVar ''a''],
      Invariants = [\<lparr>iName = ''on'', iExpr = ''a''\<rparr>],
      Compensation = [\<lparr>rInvariant = ''on'', rAssignments = [(''a'', ''false'')]\<rparr>],
      Events = []\<rparr>"

subsection \<open>64-bit arithmetic\<close>

lemma wrap64_id: "int64 x \<Longrightarrow> wrap64 x = x"
  by (simp add: wrap64_def int64_def)

lemma int64_wrap64 [simp]: "int64 (wrap64 x)"
proof -
  have "0 \<le> (x + 2 ^ 63) mod (2 ^ 64 :: int)" "(x + 2 ^ 63) mod (2 ^ 64 :: int) < 2 ^ 64"
    by simp_all
  then show ?thesis by (simp add: wrap64_def int64_def)
qed

lemma wrap64_wrap64 [simp]: "wrap64 (wrap64 x) = wrap64 x"
  by (rule wrap64_id) simp

lemma wrap64_cong: "x mod 2 ^ 64 = y mod 2 ^ 64 \<Longrightarrow> wrap64 x = wrap64 y"
proof -
  assume "x mod 2 ^ 64 = y mod 2 ^ 64"
  then have "(x + 2 ^ 63) mod 2 ^ 64 = (y + 2 ^ 63) mod (2 ^ 64 :: int)"
    by (metis mod_add_left_eq)
  then show ?thesis by (simp add: wrap64_def)
qed

lemma wrap64_mod: "wrap64 x mod 2 ^ 64 = x mod 2 ^ 64"
proof -
  have "wrap64 x mod 2 ^ 64 = ((x + 2 ^ 63) mod 2 ^ 64 - 2 ^ 63) mod (2 ^ 64 :: int)"
    by (simp add: wrap64_def)
  also have "\<dots> = (x + 2 ^ 63 - 2 ^ 63) mod 2 ^ 64"
    by (rule mod_diff_left_eq)
  finally show ?thesis by simp
qed

lemma wrap64_add_left [simp]: "wrap64 (wrap64 x + y) = wrap64 (x + y)"
  by (rule wrap64_cong) (metis mod_add_left_eq wrap64_mod)

lemma wrap64_add_right [simp]: "wrap64 (x + wrap64 y) = wrap64 (x + y)"
  by (rule wrap64_cong) (metis mod_add_right_eq wrap64_mod)

lemma wrap64_diff_left [simp]: "wrap64 (wrap64 x - y) = wrap64 (x - y)"
  by (rule wrap64_cong) (metis mod_diff_left_eq wrap64_mod)

lemma wrap64_mult_left [simp]: "wrap64 (wrap64 x * y) = wrap64 (x * y)"
  by (rule wrap64_cong) (metis mod_mult_left_eq wrap64_mod)



lemma int_div_less_of_less_mult:
  assumes "s < tot * sz" "0 < tot"
  shows "(s::int) div tot < sz"
proof -
  have "s div tot * tot + s mod tot = s" by simp
  moreover have "0 \<le> s mod tot" using assms(2) by simp
  ultimately have "s div tot * tot \<le> s" by linarith
  with assms(1) have "s div tot * tot < sz * tot" by (simp add: mult.commute)
  then show ?thesis using assms(2) by (simp add: mult_less_cancel_right)
qed

subsection \<open>The codec is a bijection while the state count fits in 64 bits\<close>












subsection \<open>Results, tables and loops\<close>

lemma bind_Inr_iff: "bind m f = Inr y \<longleftrightarrow> (\<exists>x. m = Inr x \<and> f x = Inr y)"
  by (cases m) (simp_all add: bind_def)

lemma bind_Inr [simp]: "bind (Inr x) f = f x"
  by (simp add: bind_def)

lemma bind_Inl [simp]: "bind (Inl e) f = Inl e"
  by (simp add: bind_def)

lemma wrapf_Inr_iff [simp]: "wrapf fmt args m = Inr x \<longleftrightarrow> m = Inr x"
  by (cases m) (auto simp: wrapf_def split: error.splits)

lemma wrapf_Panic_iff [simp]: "wrapf fmt args m = Inl Panic \<longleftrightarrow> m = Inl Panic"
  by (cases m) (auto simp: wrapf_def split: error.splits)

lemma at_Inr_iff: "at xs i = Inr x \<longleftrightarrow> 0 \<le> i \<and> i < int (length xs) \<and> x = xs ! nat i"
  by (auto simp: at_def)

lemma at_in_range: "0 \<le> i \<Longrightarrow> i < int (length xs) \<Longrightarrow> at xs i = Inr (xs ! nat i)"
  by (simp add: at_def)


lemma fill_Inr_length: "fill f xs = Inr ys \<Longrightarrow> length ys = length xs"
  by (induction xs arbitrary: ys) (auto simp: bind_Inr_iff)

lemma fill_Inr_nth: "fill f xs = Inr ys \<Longrightarrow> i < length xs \<Longrightarrow> f (xs ! i) = Inr (ys ! i)"
proof (induction xs arbitrary: ys i)
  case Nil
  then show ?case by simp
next
  case (Cons x xs)
  then show ?case by (cases i) (auto simp: bind_Inr_iff)
qed

lemma fill_Inl_iff: "(\<exists>e. fill f xs = Inl e) \<longleftrightarrow> (\<exists>x \<in> set xs. \<exists>e. f x = Inl e)"
proof (induction xs)
  case Nil
  then show ?case by simp
next
  case (Cons x xs)
  show ?case
  proof (cases "f x")
    case (Inl e)
    then show ?thesis by auto
  next
    case (Inr y)
    then show ?thesis using Cons by (cases "fill f xs") auto
  qed
qed

lemma length_stateIDs [simp]: "length (stateIDs n) = nat n"
  by (simp add: stateIDs_def)

lemma nth_stateIDs [simp]: "i < nat n \<Longrightarrow> stateIDs n ! i = int i"
  by (simp add: stateIDs_def)

lemma set_stateIDs: "set (stateIDs n) = {s. 0 \<le> s \<and> s < n}"
proof -
  have "\<And>s. 0 \<le> s \<Longrightarrow> s < n \<Longrightarrow> s \<in> int ` {0..<nat n}"
  proof -
    fix s :: int assume "0 \<le> s" "s < n"
    then have "nat s \<in> {0..<nat n}" "s = int (nat s)" by auto
    then show "s \<in> int ` {0..<nat n}" by blast
  qed
  then show ?thesis by (auto simp: stateIDs_def)
qed

subsection \<open>Simultaneous assignment\<close>




subsection \<open>Claim C5\<close>

text \<open>The compiled forms of two example registries, as \<open>Compile\<close> returns them (see
  \<open>Compile_permissions\<close> and \<open>Compile_counter\<close>).\<close>

definition permissions_cr :: CompiledRegistry where
  "permissions_cr =
     \<lparr>Reg = permissions, Schema = NewSchema (gVars permissions), EnumLiterals = [],
      InvExprs = [Node NodeOr 0 False []
                   [Node NodeNot 0 False [] [Node NodeVar 0 False ''can_write'' []],
                    Node NodeVar 0 False ''can_read'' []]],
      RepExprs = [[(1, Node NodeLitBool 0 False [] [])]],
      EvtGuards = [None, None, None, None],
      EvtExprs = [[(0, Node NodeLitBool 0 True [] [])], [(0, Node NodeLitBool 0 False [] [])],
                  [(1, Node NodeLitBool 0 True [] [])], [(1, Node NodeLitBool 0 False [] [])]],
      Valid = [], NF = [], Step = []\<rparr>"

definition counter_cr :: CompiledRegistry where
  "counter_cr =
     \<lparr>Reg = counter, Schema = NewSchema (gVars counter), EnumLiterals = [],
      InvExprs = [Node NodeGe 0 False []
                   [Node NodeVar 0 False ''n'' [], Node NodeLitInt 0 False [] []]],
      RepExprs = [[(0, Node NodeLitInt 0 False [] [])]],
      EvtGuards = [Some (Node NodeLt 0 False []
                           [Node NodeVar 0 False ''n'' [], Node NodeLitInt 3 False [] []]),
                   Some (Node NodeGt 0 False []
                           [Node NodeVar 0 False ''n'' [], Node NodeLitInt 0 False [] []])],
      EvtExprs = [[(0, Node NodeAdd 0 False []
                         [Node NodeVar 0 False ''n'' [], Node NodeLitInt 1 False [] []])],
                  [(0, Node NodeSub 0 False []
                         [Node NodeVar 0 False ''n'' [], Node NodeLitInt 1 False [] []])]],
      Valid = [], NF = [], Step = []\<rparr>"

lemma Compile_permissions: "Compile permissions = Inr permissions_cr"
  by code_simp

lemma Compile_counter: "Compile counter = Inr counter_cr"
  by code_simp








subsection \<open>Registries that agree on what the engine reads\<close>

text \<open>Two compiled registries agree when they have the same schema, literals and compiled
  expressions, and the same invariants and events in their source registry. The helpers
  of the engine read nothing else but the tables.\<close>

definition agree :: "CompiledRegistry \<Rightarrow> CompiledRegistry \<Rightarrow> bool" where
  "agree cr cr' \<longleftrightarrow>
     Invariants (Reg cr) = Invariants (Reg cr') \<and> Events (Reg cr) = Events (Reg cr')
     \<and> Schema cr = Schema cr' \<and> EnumLiterals cr = EnumLiterals cr'
     \<and> InvExprs cr = InvExprs cr' \<and> RepExprs cr = RepExprs cr'
     \<and> EvtGuards cr = EvtGuards cr' \<and> EvtExprs cr = EvtExprs cr'"

lemma agree_refl [simp]: "agree cr cr"
  by (simp add: agree_def)

lemma agree_sym: "agree cr cr' \<Longrightarrow> agree cr' cr"
  by (simp add: agree_def)

lemma agree_tables [simp]:
  "agree cr (cr\<lparr>Valid := v\<rparr>)" "agree cr (cr\<lparr>NF := n\<rparr>)" "agree cr (cr\<lparr>Step := s\<rparr>)"
  "agree cr (cr\<lparr>Valid := v, NF := n\<rparr>)" "agree cr (cr\<lparr>Valid := v, NF := n, Step := s\<rparr>)"
  by (simp_all add: agree_def)

lemma agreeD:
  assumes "agree cr cr'"
  shows "Invariants (Reg cr) = Invariants (Reg cr')" "Events (Reg cr) = Events (Reg cr')"
    "Schema cr = Schema cr'" "EnumLiterals cr = EnumLiterals cr'"
    "InvExprs cr = InvExprs cr'" "RepExprs cr = RepExprs cr'"
    "EvtGuards cr = EvtGuards cr'" "EvtExprs cr = EvtExprs cr'"
  using assms by (simp_all add: agree_def)

lemma agree_makeEnv: "agree cr cr' \<Longrightarrow> makeEnv cr st = makeEnv cr' st"
  by (simp add: agree_def makeEnv_def)

lemma agree_applyAssignments_loop:
  assumes "agree cr cr'"
  shows "applyAssignments_loop cr st assignments post = applyAssignments_loop cr' st assignments post"
proof (induction assignments arbitrary: post)
  case Nil
  then show ?case by simp
next
  case (Cons a rest)
  obtain varIdx exprNode where a: "a = (varIdx, exprNode)" by (cases a)
  have "applyAssignments_loop cr st rest = applyAssignments_loop cr' st rest"
    using Cons.IH by (simp add: fun_eq_iff)
  then show ?case
    by (simp add: a agree_makeEnv [OF assms] agreeD [OF assms]
          cong: VarType.case_cong Value.case_cong if_cong)
qed

lemma agree_applyAssignments:
  "agree cr cr' \<Longrightarrow> applyAssignments cr m st = applyAssignments cr' m st"
  by (simp add: applyAssignments_def agree_applyAssignments_loop)

lemma agree_applyEvent:
  assumes "agree cr cr'"
  shows "applyEvent cr e st = applyEvent cr' e st"
  by (simp add: applyEvent_def agree_applyAssignments [OF assms] agreeD [OF assms])

lemma agree_applyRepair:
  assumes "agree cr cr'"
  shows "applyRepair cr r st = applyRepair cr' r st"
  by (simp add: applyRepair_def agree_applyAssignments [OF assms] agreeD [OF assms])

lemma agree_evalValid:
  assumes "agree cr cr'"
  shows "evalValid cr st = evalValid cr' st"
  by (simp add: evalValid_def agree_makeEnv [OF assms] agreeD [OF assms])

lemma agree_evalGuard:
  assumes "agree cr cr'"
  shows "evalGuard cr e st = evalGuard cr' e st"
  by (simp add: evalGuard_def agree_makeEnv [OF assms] agreeD [OF assms] cong: option.case_cong)

lemma agree_eventName: "agree cr cr' \<Longrightarrow> eventName cr e = eventName cr' e"
  by (simp add: eventName_def agree_def)

lemma agree_repairScan:
  assumes "agree cr cr'"
  shows "repairScan cr st invs ri = repairScan cr' st invs ri"
proof (induction invs arbitrary: ri)
  case Nil
  then show ?case by simp
next
  case (Cons invExpr rest)
  show ?case
    by (simp add: Cons.IH agree_makeEnv [OF assms] agree_applyRepair [OF assms]
          agreeD [OF assms] cong: if_cong)
qed

lemma agree_depthScan:
  assumes "agree cr cr'"
  shows "depthScan cr st invs ri = depthScan cr' st invs ri"
proof (induction invs arbitrary: ri)
  case Nil
  then show ?case by simp
next
  case (Cons invExpr rest)
  show ?case
    by (simp add: Cons.IH agree_makeEnv [OF assms] agree_applyRepair [OF assms]
          agreeD [OF assms] cong: if_cong)
qed

lemma agree_computeNF_loop:
  assumes "agree cr cr'" and "Valid cr = Valid cr'"
  shows "computeNF_loop cr sid iter cur = computeNF_loop cr' sid iter cur"
proof (induction "MaxRepairIter - iter" arbitrary: iter cur)
  case 0
  then have "\<not> iter < MaxRepairIter" by simp
  then have "computeNF_loop cr sid iter cur
      = bind (Decode (Schema cr) sid) (\<lambda>st.
          Inl (Errorf ''compensation did not terminate within %d steps from state %s''
                 [I (int MaxRepairIter), St st]))"
    and "computeNF_loop cr' sid iter cur
      = bind (Decode (Schema cr') sid) (\<lambda>st.
          Inl (Errorf ''compensation did not terminate within %d steps from state %s''
                 [I (int MaxRepairIter), St st]))"
    by (simp_all add: computeNF_loop.simps)
  then show ?case by (simp add: agreeD [OF assms(1)])
next
  case (Suc n)
  from Suc.hyps(2) have "n = MaxRepairIter - (iter + 1)" by simp
  then have "computeNF_loop cr sid (iter + 1) nxt = computeNF_loop cr' sid (iter + 1) nxt"
    for nxt by (rule Suc.hyps(1))
  then have ih: "computeNF_loop cr sid (Suc iter) = computeNF_loop cr' sid (Suc iter)"
    by (simp add: fun_eq_iff)
  show ?case
    unfolding computeNF_loop.simps [of cr sid iter cur] computeNF_loop.simps [of cr' sid iter cur]
    by (simp add: agreeD [OF assms(1)] assms(2) agree_repairScan [OF assms(1)] ih
          cong: if_cong option.case_cong)
qed

lemma agree_computeNF:
  "agree cr cr' \<Longrightarrow> Valid cr = Valid cr' \<Longrightarrow> computeNF cr sid = computeNF cr' sid"
  by (simp add: computeNF_def agree_computeNF_loop)

lemma agree_repairDepth_loop:
  assumes "agree cr cr'" and "Valid cr = Valid cr'"
  shows "repairDepth_loop cr depth cur = repairDepth_loop cr' depth cur"
proof (induction "MaxRepairIter - depth" arbitrary: depth cur)
  case 0
  then have "\<not> depth < MaxRepairIter" by simp
  then have "repairDepth_loop cr depth cur = Inl (Errorf ''repair did not terminate'' [])"
    and "repairDepth_loop cr' depth cur = Inl (Errorf ''repair did not terminate'' [])"
    by (simp_all add: repairDepth_loop.simps)
  then show ?case by simp
next
  case (Suc n)
  from Suc.hyps(2) have "n = MaxRepairIter - (depth + 1)" by simp
  then have "repairDepth_loop cr (depth + 1) nxt = repairDepth_loop cr' (depth + 1) nxt"
    for nxt by (rule Suc.hyps(1))
  then have ih: "repairDepth_loop cr (Suc depth) = repairDepth_loop cr' (Suc depth)"
    by (simp add: fun_eq_iff)
  show ?case
    unfolding repairDepth_loop.simps [of cr depth cur] repairDepth_loop.simps [of cr' depth cur]
    by (simp add: agreeD [OF assms(1)] assms(2) agree_depthScan [OF assms(1)] ih
          cong: if_cong option.case_cong)
qed

lemma agree_repairDepth:
  "agree cr cr' \<Longrightarrow> Valid cr = Valid cr' \<Longrightarrow> repairDepth cr sid = repairDepth cr' sid"
  by (simp add: repairDepth_def agree_repairDepth_loop)

lemma agree_validAt:
  assumes "agree cr cr'"
  shows "validAt cr sid = validAt cr' sid"
  by (simp add: validAt_def agree_evalValid [OF assms] agreeD [OF assms])

lemma agree_nfAt:
  assumes "agree cr cr'" "Valid cr = Valid cr'"
  shows "nfAt cr sid = nfAt cr' sid"
  by (simp add: nfAt_def agree_computeNF [OF assms] agreeD [OF assms(1)]
        cong: sum.case_cong error.case_cong)

lemma agree_stepAt:
  assumes "agree cr cr'" "NF cr = NF cr'"
  shows "stepAt cr e sid = stepAt cr' e sid"
  by (simp add: stepAt_def agree_evalGuard [OF assms(1)] agree_applyEvent [OF assms(1)]
      agree_eventName [OF assms(1)] agreeD [OF assms(1)] assms(2) cong: if_cong)

subsection \<open>The tables after \<open>BuildTables\<close>\<close>

text \<open>The tables of a compiled registry are built: each is the result of the loop that
  fills it.\<close>

definition built :: "CompiledRegistry \<Rightarrow> bool" where
  "built cr \<longleftrightarrow>
     0 \<le> TotalLen (Schema cr)
     \<and> fill (validAt cr) (stateIDs (TotalLen (Schema cr))) = Inr (Valid cr)
     \<and> fill (nfAt cr) (stateIDs (TotalLen (Schema cr))) = Inr (NF cr)
     \<and> fill (\<lambda>ei. fill (stepAt cr ei) (stateIDs (TotalLen (Schema cr))))
          (map int [0..<length (Events (Reg cr))]) = Inr (Step cr)"

lemma BuildTables_built:
  assumes "BuildTables cr0 = Inr cr"
  shows "built cr" and "agree cr0 cr"
proof -
  let ?n = "TotalLen (Schema cr0)"
  from assms have n0: "0 \<le> ?n"
    by (auto simp: BuildTables_def Let_def split: if_splits)
  with assms obtain valid nf step where
    v: "fill (validAt cr0) (stateIDs ?n) = Inr valid" and
    n: "fill (nfAt (cr0\<lparr>Valid := valid\<rparr>)) (stateIDs ?n) = Inr nf" and
    s: "fill (\<lambda>ei. fill (stepAt (cr0\<lparr>Valid := valid, NF := nf\<rparr>) ei) (stateIDs ?n))
          (map int [0..<length (Events (Reg cr0))]) = Inr step" and
    cr: "cr = cr0\<lparr>Valid := valid, NF := nf, Step := step\<rparr>"
    by (auto simp: BuildTables_def Let_def bind_Inr_iff split: if_splits)
  show a: "agree cr0 cr" by (simp add: cr)
  have a1: "agree (cr0\<lparr>Valid := valid\<rparr>) cr" by (simp add: cr agree_def)
  have a2: "agree (cr0\<lparr>Valid := valid, NF := nf\<rparr>) cr" by (simp add: cr agree_def)
  have f1: "validAt cr = validAt cr0"
    using agree_validAt [OF a] by (simp add: fun_eq_iff)
  have f2: "nfAt cr = nfAt (cr0\<lparr>Valid := valid\<rparr>)"
    using agree_nfAt [OF a1] by (simp add: fun_eq_iff cr)
  have f3: "stepAt cr = stepAt (cr0\<lparr>Valid := valid, NF := nf\<rparr>)"
    using agree_stepAt [OF a2] by (simp add: fun_eq_iff cr)
  show "built cr"
    unfolding built_def f1 f2 f3 using n0 v n s by (simp add: cr)
qed

lemma nfAt_Inr_iff: "nfAt cr sid = Inr nf \<longleftrightarrow> computeNF cr sid = Inr nf"
  by (auto simp: nfAt_def bind_def split: sum.splits error.splits)

lemma built_tables:
  assumes "built cr" "0 \<le> s" "s < TotalLen (Schema cr)"
  shows "length (Valid cr) = nat (TotalLen (Schema cr))"
    and "length (NF cr) = nat (TotalLen (Schema cr))"
    and "validAt cr s = Inr (Valid cr ! nat s)"
    and "computeNF cr s = Inr (NF cr ! nat s)"
proof -
  let ?n = "TotalLen (Schema cr)"
  from assms(1) have v: "fill (validAt cr) (stateIDs ?n) = Inr (Valid cr)"
    and n: "fill (nfAt cr) (stateIDs ?n) = Inr (NF cr)"
    by (simp_all add: built_def)
  from assms(2,3) have i: "nat s < length (stateIDs ?n)" "stateIDs ?n ! nat s = s"
    by simp_all
  show "length (Valid cr) = nat ?n" using fill_Inr_length [OF v] by simp
  show "length (NF cr) = nat ?n" using fill_Inr_length [OF n] by simp
  show "validAt cr s = Inr (Valid cr ! nat s)" using fill_Inr_nth [OF v i(1)] i(2) by simp
  show "computeNF cr s = Inr (NF cr ! nat s)"
    using fill_Inr_nth [OF n i(1)] i(2) by (simp add: nfAt_Inr_iff)
qed

lemma built_Step:
  assumes "built cr" "e < length (Events (Reg cr))"
  shows "length (Step cr) = length (Events (Reg cr))"
    and "length (Step cr ! e) = nat (TotalLen (Schema cr))"
    and "0 \<le> s \<Longrightarrow> s < TotalLen (Schema cr) \<Longrightarrow> stepAt cr (int e) s = Inr (Step cr ! e ! nat s)"
proof -
  let ?n = "TotalLen (Schema cr)"
  let ?es = "map int [0..<length (Events (Reg cr))]"
  from assms(1) have st: "fill (\<lambda>ei. fill (stepAt cr ei) (stateIDs ?n)) ?es = Inr (Step cr)"
    by (simp add: built_def)
  show "length (Step cr) = length (Events (Reg cr))" using fill_Inr_length [OF st] by simp
  from assms(2) have "e < length ?es" "?es ! e = int e" by simp_all
  with fill_Inr_nth [OF st] have row: "fill (stepAt cr (int e)) (stateIDs ?n) = Inr (Step cr ! e)"
    by fastforce
  show "length (Step cr ! e) = nat ?n" using fill_Inr_length [OF row] by simp
  assume "0 \<le> s" "s < ?n"
  then have i: "nat s < length (stateIDs ?n)" "stateIDs ?n ! nat s = s" by simp_all
  show "stepAt cr (int e) s = Inr (Step cr ! e ! nat s)"
    using fill_Inr_nth [OF row i(1)] i(2) by simp
qed

lemma computeNF_loop_Inr:
  assumes "computeNF_loop cr sid iter cur = Inr nf"
  shows "iter < MaxRepairIter
       \<and> (at (Valid cr) cur = Inr True \<and> nf = cur
          \<or> at (Valid cr) cur = Inr False
            \<and> (\<exists>st. Decode (Schema cr) cur = Inr st
                 \<and> (repairScan cr st (InvExprs cr) 0 = Inr None \<and> nf = cur
                    \<or> (\<exists>nxt. repairScan cr st (InvExprs cr) 0 = Inr (Some nxt)
                          \<and> computeNF_loop cr sid (Suc iter) nxt = Inr nf))))"
  using assms
  by (subst (asm) computeNF_loop.simps)
     (auto simp: bind_Inr_iff split: if_splits option.splits)

lemma computeNF_loop_range:
  "computeNF_loop cr sid iter cur = Inr nf \<Longrightarrow> 0 \<le> nf \<and> nf < int (length (Valid cr))"
proof (induction "MaxRepairIter - iter" arbitrary: iter cur)
  case 0
  with computeNF_loop_Inr [OF 0(2)] show ?case by simp
next
  case (Suc n)
  from Suc.hyps(2) have m: "n = MaxRepairIter - Suc iter" by simp
  from computeNF_loop_Inr [OF Suc.prems]
  consider "at (Valid cr) cur = Inr True" "nf = cur"
    | "at (Valid cr) cur = Inr False" "nf = cur"
    | nxt where "computeNF_loop cr sid (Suc iter) nxt = Inr nf"
    by blast
  then show ?case
  proof cases
    case 1
    then show ?thesis by (simp add: at_Inr_iff)
  next
    case 2
    then show ?thesis by (simp add: at_Inr_iff)
  next
    case 3
    then show ?thesis by (rule Suc.hyps(1) [OF m])
  qed
qed

lemma computeNF_range:
  "computeNF cr sid = Inr nf \<Longrightarrow> 0 \<le> nf \<and> nf < int (length (Valid cr))"
  unfolding computeNF_def by (rule computeNF_loop_range)

lemma built_NF_range:
  assumes "built cr" "0 \<le> s" "s < TotalLen (Schema cr)"
  shows "0 \<le> NF cr ! nat s" and "NF cr ! nat s < TotalLen (Schema cr)"
  using computeNF_range [OF built_tables(4) [OF assms]] built_tables(1) [OF assms] assms(2,3)
  by simp_all

subsection \<open>Claim C4\<close>

definition counter_tables :: CompiledRegistry where
  "counter_tables =
     counter_cr\<lparr>Valid := [True, True, True, True], NF := [0, 1, 2, 3],
                Step := [[1, 2, 3, - 1], [- 1, 0, 1, 2]]\<rparr>"

lemma BuildTables_counter: "BuildTables counter_cr = Inr counter_tables"
  by code_simp

text \<open>Claim C4. After \<open>BuildTables\<close> returns without error, for every event \<open>e\<close> and
  state \<open>s\<close> the state decodes, the guard of \<open>e\<close> evaluates at it, and \<open>Step[e][s]\<close> is
  \<open>-1\<close> exactly when the guard is false; an event with no guard is enabled and its entry
  is not \<open>-1\<close>.\<close>

theorem Step_disabled_iff_guard_false:
  assumes "BuildTables cr0 = Inr cr"
    and "e < length (Events (Reg cr))"
    and "0 \<le> s" and "s < TotalLen (Schema cr)"
  shows "\<exists>st enabled.
           Decode (Schema cr) s = Inr st
           \<and> evalGuard cr (int e) st = Inr enabled
           \<and> (Step cr ! e ! nat s = - 1 \<longleftrightarrow> \<not> enabled)
           \<and> (EvtGuards cr ! e = None \<longrightarrow> enabled \<and> Step cr ! e ! nat s \<noteq> - 1)"
proof -
  from BuildTables_built(1) [OF assms(1)] have b: "built cr" .
  let ?x = "Step cr ! e ! nat s"
  from built_Step(3) [OF b assms(2,3,4)] have "stepAt cr (int e) s = Inr ?x" .
  then obtain st enabled where
    d: "Decode (Schema cr) s = Inr st" and
    g: "evalGuard cr (int e) st = Inr enabled" and
    r: "(if \<not> enabled then Inr (- 1)
         else bind (wrapf ''event %q at state %s: %w'' [S (eventName cr (int e)), St st]
                      (applyEvent cr (int e) st)) (\<lambda>post.
                bind (Encode (Schema cr) post) (\<lambda>postID. at (NF cr) postID))) = Inr ?x"
    by (auto simp: stepAt_def bind_Inr_iff)
  have iff: "?x = - 1 \<longleftrightarrow> \<not> enabled"
  proof (cases enabled)
    case False
    with r show ?thesis by simp
  next
    case True
    with r obtain postID where p: "at (NF cr) postID = Inr ?x"
      by (auto simp: bind_Inr_iff)
    then have p0: "0 \<le> postID" and p1: "postID < int (length (NF cr))"
      and px: "?x = NF cr ! nat postID"
      by (simp_all add: at_Inr_iff)
    from p1 built_tables(2) [OF b assms(3,4)] assms(3,4)
    have "postID < TotalLen (Schema cr)" by simp
    from built_NF_range(1) [OF b p0 this] px have "0 \<le> ?x" by simp
    with True show ?thesis by simp
  qed
  have "enabled" if "EvtGuards cr ! e = None"
  proof -
    from g obtain guard where "at (EvtGuards cr) (int e) = Inr guard"
      and v: "(case guard of None \<Rightarrow> Inr True | Some gd \<Rightarrow> EvalBool gd (makeEnv cr st)) = Inr enabled"
      by (auto simp: evalGuard_def bind_Inr_iff)
    then have "guard = EvtGuards cr ! e" by (simp add: at_Inr_iff)
    with that v show ?thesis by simp
  qed
  with iff have "(?x = - 1 \<longleftrightarrow> \<not> enabled)
      \<and> (EvtGuards cr ! e = None \<longrightarrow> enabled \<and> ?x \<noteq> - 1)"
    by auto
  with d g show ?thesis by (intro exI [of _ st] exI [of _ enabled]) simp
qed

text \<open>The theorem at the bounded counter: \<open>inc\<close> is guarded by \<open>n < 3\<close>, so its entry at
  \<open>n = 3\<close> is \<open>-1\<close>.\<close>

theorem Step_disabled_iff_guard_false_witness:
  "BuildTables counter_cr = Inr counter_tables
   \<and> Decode (Schema counter_tables) 3 = Inr [3]
   \<and> evalGuard counter_tables 0 [3] = Inr False
   \<and> Step counter_tables ! 0 ! nat 3 = - 1
   \<and> (\<exists>st enabled. Decode (Schema counter_tables) 3 = Inr st
         \<and> evalGuard counter_tables (int 0) st = Inr enabled
         \<and> (Step counter_tables ! 0 ! nat 3 = - 1 \<longleftrightarrow> \<not> enabled))"
proof -
  have e: "(0::nat) < length (Events (Reg counter_tables))" by code_simp
  have s: "(3::int) < TotalLen (Schema counter_tables)" by code_simp
  have d: "Decode (Schema counter_tables) 3 = Inr [3]" by code_simp
  have g: "evalGuard counter_tables 0 [3] = Inr False" by code_simp
  have x: "Step counter_tables ! 0 ! nat 3 = - 1" by code_simp
  from Step_disabled_iff_guard_false [OF BuildTables_counter e _ s]
  show ?thesis using BuildTables_counter d g x by auto
qed

subsection \<open>Claim C1\<close>

lemma repairScan_depthScan:
  "repairScan cr st invs ri = Inr r \<Longrightarrow> depthScan cr st invs ri = Inr r"
proof (induction invs arbitrary: ri)
  case Nil
  then show ?case by simp
next
  case (Cons invExpr rest)
  then show ?case
    by (auto simp: bind_Inr_iff split: if_splits)
qed

lemma computeNF_loop_repairDepth_loop:
  "computeNF_loop cr sid iter cur = Inr nf \<Longrightarrow> \<exists>d. repairDepth_loop cr iter cur = Inr d"
proof (induction "MaxRepairIter - iter" arbitrary: iter cur)
  case 0
  with computeNF_loop_Inr [OF 0(2)] show ?case by simp
next
  case (Suc n)
  from Suc.hyps(2) have m: "n = MaxRepairIter - Suc iter" by simp
  from computeNF_loop_Inr [OF Suc.prems] have lt: "iter < MaxRepairIter" by simp
  from computeNF_loop_Inr [OF Suc.prems]
  consider "at (Valid cr) cur = Inr True"
    | st where "at (Valid cr) cur = Inr False" "Decode (Schema cr) cur = Inr st"
        "repairScan cr st (InvExprs cr) 0 = Inr None"
    | st nxt where "at (Valid cr) cur = Inr False" "Decode (Schema cr) cur = Inr st"
        "repairScan cr st (InvExprs cr) 0 = Inr (Some nxt)"
        "computeNF_loop cr sid (Suc iter) nxt = Inr nf"
    by blast
  then show ?case
  proof cases
    case 1
    then show ?thesis using lt by (simp add: repairDepth_loop.simps [of cr iter cur])
  next
    case 2
    then show ?thesis
      using lt repairScan_depthScan [OF 2(3)]
      by (simp add: repairDepth_loop.simps [of cr iter cur])
  next
    case 3
    from Suc.hyps(1) [OF m 3(4)] obtain d where "repairDepth_loop cr (Suc iter) nxt = Inr d" ..
    then show ?thesis
      using lt 3(1,2) repairScan_depthScan [OF 3(3)]
      by (simp add: repairDepth_loop.simps [of cr iter cur])
  qed
qed

lemma built_repairDepth:
  assumes "built cr" "0 \<le> s" "s < TotalLen (Schema cr)"
  shows "\<exists>d. repairDepth cr s = Inr d"
  using computeNF_loop_repairDepth_loop [of cr s 0 s] built_tables(4) [OF assms]
  by (simp add: computeNF_def repairDepth_def)

lemma CheckWFC_depth_returns:
  assumes "\<forall>s \<in> set sids. \<exists>d. repairDepth cr s = Inr d"
  shows "\<exists>d. CheckWFC_depth cr sids maxDepth = Inr d"
  using assms
proof (induction sids arbitrary: maxDepth)
  case Nil
  then show ?case by simp
next
  case (Cons s sids)
  then obtain d where "repairDepth cr s = Inr d" by auto
  with Cons show ?case by simp
qed

text \<open>What the first loop of \<open>CheckWFC\<close> tests at one state.\<close>

definition wfc_at :: "CompiledRegistry \<Rightarrow> StateID \<Rightarrow> bool" where
  "wfc_at cr s \<longleftrightarrow>
     Valid cr ! nat (NF cr ! nat s) \<and> (Valid cr ! nat s \<longrightarrow> NF cr ! nat s = s)"

lemma CheckWFC_scan_None_iff:
  assumes "\<forall>s \<in> set sids. 0 \<le> s \<and> s < int (length (NF cr)) \<and> s < int (length (Valid cr))
             \<and> 0 \<le> NF cr ! nat s \<and> NF cr ! nat s < int (length (Valid cr))"
  shows "CheckWFC_scan cr sids = Inr None \<longleftrightarrow> (\<forall>s \<in> set sids. wfc_at cr s)"
  using assms
proof (induction sids)
  case Nil
  then show ?case by simp
next
  case (Cons s sids)
  from Cons.prems have
    a: "at (NF cr) s = Inr (NF cr ! nat s)" and
    b: "at (Valid cr) (NF cr ! nat s) = Inr (Valid cr ! nat (NF cr ! nat s))" and
    c: "at (Valid cr) s = Inr (Valid cr ! nat s)"
    by (simp_all add: at_in_range)
  from Cons have ih: "CheckWFC_scan cr sids = Inr None \<longleftrightarrow> (\<forall>s \<in> set sids. wfc_at cr s)"
    by simp
  show ?case
    by (auto simp: a b c ih wfc_at_def bind_Inr_iff)
qed

text \<open>A call that returns a value, not an error or a panic.\<close>

definition returns :: "error + 'a \<Rightarrow> bool" where
  "returns r = (case r of Inr x \<Rightarrow> True | Inl e \<Rightarrow> False)"

lemma returns_iff: "returns r \<longleftrightarrow> (\<exists>x. r = Inr x)"
  by (cases r) (simp_all add: returns_def)

text \<open>The tables are fit for \<open>CheckWFC\<close>: \<open>Valid\<close> and \<open>NF\<close> have one cell per state, every
  \<open>NF\<close> cell is a state ID, every state ID decodes, and the repair depth of every state
  is computed. \<open>BuildTables\<close> establishes this (\<open>BuildTables_tables_ready\<close> below); tables
  set by hand can have it too, whatever their cells hold.\<close>

definition tables_ready :: "CompiledRegistry \<Rightarrow> bool" where
  "tables_ready cr \<longleftrightarrow>
     length (Valid cr) = nat (TotalLen (Schema cr))
     \<and> length (NF cr) = nat (TotalLen (Schema cr))
     \<and> (\<forall>s \<in> set (stateIDs (TotalLen (Schema cr))).
          0 \<le> NF cr ! nat s \<and> NF cr ! nat s < TotalLen (Schema cr)
          \<and> returns (Decode (Schema cr) s)
          \<and> returns (repairDepth cr s))"

lemma BuildTables_tables_ready:
  assumes "BuildTables cr0 = Inr cr"
  shows "tables_ready cr"
proof -
  from BuildTables_built(1) [OF assms] have b: "built cr" .
  have "0 \<le> NF cr ! nat s \<and> NF cr ! nat s < TotalLen (Schema cr)
          \<and> returns (Decode (Schema cr) s) \<and> returns (repairDepth cr s)"
    if "s \<in> set (stateIDs (TotalLen (Schema cr)))" for s
  proof -
    from that have s: "0 \<le> s" "s < TotalLen (Schema cr)" by (simp_all add: set_stateIDs)
    from built_tables(3) [OF b s] have "returns (Decode (Schema cr) s)"
      by (auto simp: validAt_def bind_Inr_iff returns_iff)
    with built_NF_range [OF b s] built_repairDepth [OF b s] show ?thesis
      by (simp add: returns_iff)
  qed
  moreover from b have "length (Valid cr) = nat (TotalLen (Schema cr))"
    using fill_Inr_length [of "validAt cr" "stateIDs (TotalLen (Schema cr))" "Valid cr"]
    by (simp add: built_def)
  moreover from b have "length (NF cr) = nat (TotalLen (Schema cr))"
    using fill_Inr_length [of "nfAt cr" "stateIDs (TotalLen (Schema cr))" "NF cr"]
    by (simp add: built_def)
  ultimately show ?thesis
    unfolding tables_ready_def by blast
qed

lemma CheckWFC_scan_returns:
  assumes "\<forall>s \<in> set sids. 0 \<le> s \<and> s < int (length (NF cr)) \<and> s < int (length (Valid cr))
             \<and> 0 \<le> NF cr ! nat s \<and> NF cr ! nat s < int (length (Valid cr))
             \<and> returns (Decode (Schema cr) s) \<and> returns (Decode (Schema cr) (NF cr ! nat s))"
  shows "\<exists>r. CheckWFC_scan cr sids = Inr r"
  using assms
proof (induction sids)
  case Nil
  then show ?case by simp
next
  case (Cons s sids)
  from Cons.prems have
    a: "at (NF cr) s = Inr (NF cr ! nat s)" and
    b: "at (Valid cr) (NF cr ! nat s) = Inr (Valid cr ! nat (NF cr ! nat s))" and
    c: "at (Valid cr) s = Inr (Valid cr ! nat s)"
    by (simp_all add: at_in_range)
  from Cons.prems obtain st nfSt where
    d: "Decode (Schema cr) s = Inr st" "Decode (Schema cr) (NF cr ! nat s) = Inr nfSt"
    by (auto simp: returns_iff)
  from Cons obtain r where ih: "CheckWFC_scan cr sids = Inr r" by auto
  show ?case by (simp add: a b c d ih)
qed

text \<open>Claim C1. For a compiled registry whose tables are fit for the check, as they are
  after \<open>BuildTables\<close> has built them, \<open>CheckWFC\<close> returns a verdict, and the verdict is
  PASS if and only if every state \<open>s\<close> in \<open>[0, total)\<close> has \<open>Valid[NF[s]]\<close> and, when
  \<open>Valid[s]\<close>, \<open>NF[s] = s\<close>.\<close>

theorem CheckWFC_pass_iff:
  assumes "tables_ready cr"
  shows "\<exists>res. CheckWFC cr = Inr res
           \<and> (wfcPass res \<longleftrightarrow>
                (\<forall>s. 0 \<le> s \<and> s < TotalLen (Schema cr) \<longrightarrow>
                   Valid cr ! nat (NF cr ! nat s) \<and> (Valid cr ! nat s \<longrightarrow> NF cr ! nat s = s)))"
proof -
  let ?n = "TotalLen (Schema cr)"
  let ?sids = "stateIDs ?n"
  from assms have len: "length (Valid cr) = nat ?n" "length (NF cr) = nat ?n"
    and cells: "\<And>s. 0 \<le> s \<Longrightarrow> s < ?n \<Longrightarrow>
          0 \<le> NF cr ! nat s \<and> NF cr ! nat s < ?n
          \<and> returns (Decode (Schema cr) s) \<and> returns (repairDepth cr s)"
    by (simp_all add: tables_ready_def set_stateIDs)
  have rng: "\<forall>s \<in> set ?sids. 0 \<le> s \<and> s < int (length (NF cr)) \<and> s < int (length (Valid cr))
               \<and> 0 \<le> NF cr ! nat s \<and> NF cr ! nat s < int (length (Valid cr))
               \<and> returns (Decode (Schema cr) s) \<and> returns (Decode (Schema cr) (NF cr ! nat s))"
  proof
    fix s assume "s \<in> set ?sids"
    then have s: "0 \<le> s" "s < ?n" by (simp_all add: set_stateIDs)
    from cells [OF s] have nf: "0 \<le> NF cr ! nat s" "NF cr ! nat s < ?n"
      and d: "returns (Decode (Schema cr) s)" by simp_all
    from cells [OF nf] have "returns (Decode (Schema cr) (NF cr ! nat s))" by simp
    with s nf d len
    show "0 \<le> s \<and> s < int (length (NF cr)) \<and> s < int (length (Valid cr))
            \<and> 0 \<le> NF cr ! nat s \<and> NF cr ! nat s < int (length (Valid cr))
            \<and> returns (Decode (Schema cr) s) \<and> returns (Decode (Schema cr) (NF cr ! nat s))"
      by simp
  qed
  then have rng': "\<forall>s \<in> set ?sids. 0 \<le> s \<and> s < int (length (NF cr)) \<and> s < int (length (Valid cr))
               \<and> 0 \<le> NF cr ! nat s \<and> NF cr ! nat s < int (length (Valid cr))"
    by blast
  have conds: "(\<forall>s \<in> set ?sids. wfc_at cr s) \<longleftrightarrow>
      (\<forall>s. 0 \<le> s \<and> s < ?n \<longrightarrow>
         Valid cr ! nat (NF cr ! nat s) \<and> (Valid cr ! nat s \<longrightarrow> NF cr ! nat s = s))"
    by (auto simp: set_stateIDs wfc_at_def)
  have scan: "CheckWFC_scan cr ?sids = Inr None \<longleftrightarrow> (\<forall>s \<in> set ?sids. wfc_at cr s)"
    by (rule CheckWFC_scan_None_iff [OF rng'])
  from CheckWFC_scan_returns [OF rng] obtain r where r: "CheckWFC_scan cr ?sids = Inr r" ..
  have "\<forall>s \<in> set ?sids. \<exists>d. repairDepth cr s = Inr d"
    using cells by (simp add: set_stateIDs returns_iff)
  from CheckWFC_depth_returns [OF this]
  obtain d where depth: "CheckWFC_depth cr ?sids 0 = Inr d" by blast
  show ?thesis
  proof (cases r)
    case None
    with r depth
    have "CheckWFC cr = Inr \<lparr>wfcPass = True, wfcMaxDepth = d, wfcBadState = None\<rparr>"
      by (simp add: CheckWFC_def)
    moreover from None r scan conds
    have "\<forall>s. 0 \<le> s \<and> s < ?n \<longrightarrow>
         Valid cr ! nat (NF cr ! nat s) \<and> (Valid cr ! nat s \<longrightarrow> NF cr ! nat s = s)"
      by simp
    ultimately show ?thesis by simp
  next
    case (Some b)
    with r
    have "CheckWFC cr = Inr \<lparr>wfcPass = False, wfcMaxDepth = 0, wfcBadState = Some b\<rparr>"
      by (simp add: CheckWFC_def)
    moreover from Some r scan conds
    have "\<not> (\<forall>s. 0 \<le> s \<and> s < ?n \<longrightarrow>
         Valid cr ! nat (NF cr ! nat s) \<and> (Valid cr ! nat s \<longrightarrow> NF cr ! nat s = s))"
      by simp
    ultimately show ?thesis by simp
  qed
qed

definition permissions_tables :: CompiledRegistry where
  "permissions_tables =
     permissions_cr\<lparr>Valid := [True, False, True, True], NF := [0, 0, 2, 3],
        Step := [[2, 3, 2, 3], [0, 0, 0, 0], [0, 0, 3, 3], [0, 0, 2, 2]]\<rparr>"

lemma BuildTables_permissions: "BuildTables permissions_cr = Inr permissions_tables"
  by code_simp

text \<open>The theorem at three sets of tables for the permissions registry. The tables that
  \<open>BuildTables\<close> builds pass, with depth 1: the invalid state \<open>can_write\<close> without
  \<open>can_read\<close> (ID 1) has the valid normal form 0. With \<open>NF[1]\<close> set by hand to the invalid
  state 1 the check fails on the first test, and with \<open>NF[2]\<close> set to 3 for the valid
  state 2 it fails on the second.\<close>

definition permissions_nf_invalid :: CompiledRegistry where
  "permissions_nf_invalid = permissions_tables\<lparr>NF := [0, 1, 2, 3]\<rparr>"

definition permissions_not_fixpoint :: CompiledRegistry where
  "permissions_not_fixpoint = permissions_tables\<lparr>NF := [0, 0, 3, 3]\<rparr>"

theorem CheckWFC_pass_iff_witness:
  "BuildTables permissions_cr = Inr permissions_tables
   \<and> tables_ready permissions_tables
   \<and> CheckWFC permissions_tables = Inr \<lparr>wfcPass = True, wfcMaxDepth = 1, wfcBadState = None\<rparr>
   \<and> Valid permissions_tables ! nat (NF permissions_tables ! nat 1)
   \<and> \<not> Valid permissions_tables ! nat 1
   \<and> NF permissions_tables ! nat 2 = 2
   \<and> tables_ready permissions_nf_invalid
   \<and> CheckWFC permissions_nf_invalid
       = Inr \<lparr>wfcPass = False, wfcMaxDepth = 0, wfcBadState = Some (NFNotValid [0, 1] [0, 1])\<rparr>
   \<and> \<not> Valid permissions_nf_invalid ! nat (NF permissions_nf_invalid ! nat 1)
   \<and> tables_ready permissions_not_fixpoint
   \<and> CheckWFC permissions_not_fixpoint
       = Inr \<lparr>wfcPass = False, wfcMaxDepth = 0, wfcBadState = Some (NotFixpoint [1, 0] [1, 1])\<rparr>
   \<and> Valid permissions_not_fixpoint ! nat (NF permissions_not_fixpoint ! nat 2)
   \<and> Valid permissions_not_fixpoint ! nat 2
   \<and> NF permissions_not_fixpoint ! nat 2 \<noteq> 2"
proof -
  have r1: "tables_ready permissions_tables" by code_simp
  have r2: "tables_ready permissions_nf_invalid" by code_simp
  have r3: "tables_ready permissions_not_fixpoint" by code_simp
  have w1: "CheckWFC permissions_tables
             = Inr \<lparr>wfcPass = True, wfcMaxDepth = 1, wfcBadState = None\<rparr>"
    by code_simp
  have w2: "CheckWFC permissions_nf_invalid
       = Inr \<lparr>wfcPass = False, wfcMaxDepth = 0, wfcBadState = Some (NFNotValid [0, 1] [0, 1])\<rparr>"
    by code_simp
  have w3: "CheckWFC permissions_not_fixpoint
       = Inr \<lparr>wfcPass = False, wfcMaxDepth = 0, wfcBadState = Some (NotFixpoint [1, 0] [1, 1])\<rparr>"
    by code_simp
  have t: "TotalLen (Schema permissions_tables) = 4" by code_simp
  from CheckWFC_pass_iff [OF r1] w1
  have al: "\<forall>s. 0 \<le> s \<and> s < TotalLen (Schema permissions_tables) \<longrightarrow>
          Valid permissions_tables ! nat (NF permissions_tables ! nat s)
          \<and> (Valid permissions_tables ! nat s \<longrightarrow> NF permissions_tables ! nat s = s)"
    by simp
  have "0 \<le> (1::int) \<and> 1 < TotalLen (Schema permissions_tables)"
    and "0 \<le> (2::int) \<and> 2 < TotalLen (Schema permissions_tables)"
    using t by simp_all
  with al have "Valid permissions_tables ! nat (NF permissions_tables ! nat 1)"
    and "Valid permissions_tables ! nat 2 \<longrightarrow> NF permissions_tables ! nat 2 = 2"
    by blast+
  moreover have "\<not> Valid permissions_tables ! nat 1" "Valid permissions_tables ! nat 2"
    by code_simp+
  moreover from CheckWFC_pass_iff [OF r2] w2
  have "\<not> (\<forall>s. 0 \<le> s \<and> s < TotalLen (Schema permissions_nf_invalid) \<longrightarrow>
          Valid permissions_nf_invalid ! nat (NF permissions_nf_invalid ! nat s)
          \<and> (Valid permissions_nf_invalid ! nat s \<longrightarrow> NF permissions_nf_invalid ! nat s = s))"
    by simp
  moreover have "\<not> Valid permissions_nf_invalid ! nat (NF permissions_nf_invalid ! nat 1)"
    by code_simp
  moreover have "Valid permissions_not_fixpoint ! nat (NF permissions_not_fixpoint ! nat 2)"
    "Valid permissions_not_fixpoint ! nat 2" "NF permissions_not_fixpoint ! nat 2 \<noteq> 2"
    by code_simp+
  ultimately show ?thesis
    using BuildTables_permissions r1 r2 r3 w1 w2 w3 by simp
qed

subsection \<open>Claim C2\<close>

text \<open>First-match firing, as the specification words it. The lowest index of an invariant
  that evaluates to false at a state; one repair step, which applies the repair at that
  index and re-encodes; and the first valid state on the chain of repair steps from a
  state, within \<open>k\<close> steps.\<close>

definition lowestViolated :: "CompiledRegistry \<Rightarrow> State \<Rightarrow> nat option" where
  "lowestViolated cr st =
     List.find (\<lambda>i. EvalBool (InvExprs cr ! i) (makeEnv cr st) = Inr False)
       [0..<length (InvExprs cr)]"

definition firstMatchStep :: "CompiledRegistry \<Rightarrow> StateID \<Rightarrow> StateID option" where
  "firstMatchStep cr cur =
     (case Decode (Schema cr) cur of
        Inl e \<Rightarrow> None
      | Inr st \<Rightarrow>
          (case lowestViolated cr st of
             None \<Rightarrow> None
           | Some i \<Rightarrow>
               (case applyRepair cr (int i) st of
                  Inl e \<Rightarrow> None
                | Inr newSt \<Rightarrow>
                    (case Encode (Schema cr) newSt of Inl e \<Rightarrow> None | Inr nxt \<Rightarrow> Some nxt))))"

fun firstValid :: "CompiledRegistry \<Rightarrow> nat \<Rightarrow> StateID \<Rightarrow> StateID option" where
  "firstValid cr 0 cur = (if Valid cr ! nat cur then Some cur else None)"
| "firstValid cr (Suc k) cur =
     (if Valid cr ! nat cur then Some cur
      else (case firstMatchStep cr cur of
              None \<Rightarrow> None
            | Some nxt \<Rightarrow> firstValid cr k nxt))"

text \<open>The \<open>Valid\<close> table holds what the first loop of \<open>BuildTables\<close> computes, the state in
  which \<open>BuildTables\<close> calls \<open>computeNF\<close>.\<close>

definition validFilled :: "CompiledRegistry \<Rightarrow> bool" where
  "validFilled cr \<longleftrightarrow>
     fill (validAt cr) (stateIDs (TotalLen (Schema cr))) = Inr (Valid cr)"

lemma built_validFilled: "built cr \<Longrightarrow> validFilled cr"
  by (simp add: built_def validFilled_def)

lemma validFilled_validAt:
  assumes "validFilled cr" "0 \<le> s" "s < int (length (Valid cr))"
  shows "validAt cr s = Inr (Valid cr ! nat s)"
proof -
  let ?n = "TotalLen (Schema cr)"
  from assms(1) have v: "fill (validAt cr) (stateIDs ?n) = Inr (Valid cr)"
    by (simp add: validFilled_def)
  from fill_Inr_length [OF v] have l: "length (Valid cr) = nat ?n" by simp
  with assms(2,3) have lt: "nat s < nat ?n" by (auto split: if_splits)
  then have i: "nat s < length (stateIDs ?n)" by simp
  from lt assms(2) have j: "stateIDs ?n ! nat s = s" by simp
  from fill_Inr_nth [OF v i] j show ?thesis by simp
qed

lemma repairScan_Some:
  "repairScan cr st invs ri = Inr (Some nxt) \<Longrightarrow>
     \<exists>i < length invs.
        EvalBool (invs ! i) (makeEnv cr st) = Inr False
        \<and> (\<forall>j < i. EvalBool (invs ! j) (makeEnv cr st) = Inr True)
        \<and> (\<exists>newSt. applyRepair cr (ri + int i) st = Inr newSt
               \<and> Encode (Schema cr) newSt = Inr nxt)"
proof (induction invs arbitrary: ri)
  case Nil
  then show ?case by simp
next
  case (Cons invExpr rest)
  from Cons.prems obtain v where v: "EvalBool invExpr (makeEnv cr st) = Inr v"
    and r: "(if \<not> v then
               (if ri \<ge> int (length (RepExprs cr)) then
                  bind (at (Invariants (Reg cr)) ri) (\<lambda>invt.
                    Inl (Errorf ''no repair defined for invariant %q'' [S (iName invt)]))
                else bind (applyRepair cr ri st) (\<lambda>newSt.
                       bind (Encode (Schema cr) newSt) (\<lambda>nxt. Inr (Some nxt))))
             else repairScan cr st rest (ri + 1)) = Inr (Some nxt)"
    by (auto simp: bind_Inr_iff)
  show ?case
  proof (cases v)
    case False
    with r obtain newSt where "applyRepair cr ri st = Inr newSt"
      "Encode (Schema cr) newSt = Inr nxt"
      by (auto simp: bind_Inr_iff split: if_splits)
    with v False show ?thesis by (intro exI [of _ 0]) simp
  next
    case True
    with r have "repairScan cr st rest (ri + 1) = Inr (Some nxt)" by simp
    from Cons.IH [OF this] obtain i newSt where i: "i < length rest"
      "EvalBool (rest ! i) (makeEnv cr st) = Inr False"
      "\<forall>j < i. EvalBool (rest ! j) (makeEnv cr st) = Inr True"
      "applyRepair cr (ri + 1 + int i) st = Inr newSt" "Encode (Schema cr) newSt = Inr nxt"
      by blast
    have "\<forall>j < Suc i. EvalBool ((invExpr # rest) ! j) (makeEnv cr st) = Inr True"
      using i(3) v True by (auto simp: less_Suc_eq_0_disj)
    with i show ?thesis
      by (intro exI [of _ "Suc i"]) (simp add: add.commute add.left_commute)
  qed
qed

lemma repairScan_None:
  "repairScan cr st invs ri = Inr None \<Longrightarrow> evalValid_loop invs (makeEnv cr st) = Inr True"
proof (induction invs arbitrary: ri)
  case Nil
  then show ?case by simp
next
  case (Cons invExpr rest)
  then show ?case
    by (auto simp: bind_Inr_iff split: if_splits)
qed

lemma repairScan_firstMatchStep:
  assumes "Decode (Schema cr) cur = Inr st"
    and "repairScan cr st (InvExprs cr) 0 = Inr (Some nxt)"
  shows "firstMatchStep cr cur = Some nxt"
proof -
  from repairScan_Some [OF assms(2)] obtain i newSt where i: "i < length (InvExprs cr)"
    "EvalBool (InvExprs cr ! i) (makeEnv cr st) = Inr False"
    "\<forall>j < i. EvalBool (InvExprs cr ! j) (makeEnv cr st) = Inr True"
    "applyRepair cr (int i) st = Inr newSt" "Encode (Schema cr) newSt = Inr nxt"
    by auto
  have "lowestViolated cr st = Some i"
    unfolding lowestViolated_def find_Some_iff
    using i(1,2,3) by (intro exI [of _ i]) simp
  with assms(1) i(4,5) show ?thesis by (simp add: firstMatchStep_def)
qed

lemma firstValid_valid: "Valid cr ! nat cur \<Longrightarrow> firstValid cr k cur = Some cur"
  by (cases k) simp_all

lemma firstValid_Some_valid: "firstValid cr k cur = Some nf \<Longrightarrow> Valid cr ! nat nf"
proof (induction k arbitrary: cur)
  case 0
  then show ?case by (simp split: if_splits)
next
  case (Suc k)
  then show ?case by (auto split: if_splits option.splits)
qed

lemma computeNF_loop_firstValid:
  assumes "validFilled cr"
  shows "computeNF_loop cr sid iter cur = Inr nf \<Longrightarrow>
           firstValid cr (MaxRepairIter - 1 - iter) cur = Some nf"
proof (induction "MaxRepairIter - iter" arbitrary: iter cur)
  case 0
  with computeNF_loop_Inr [OF 0(2)] show ?case by simp
next
  case (Suc n)
  from Suc.hyps(2) have m: "n = MaxRepairIter - Suc iter" by simp
  from computeNF_loop_Inr [OF Suc.prems]
  consider "at (Valid cr) cur = Inr True" "nf = cur"
    | st where "at (Valid cr) cur = Inr False" "Decode (Schema cr) cur = Inr st"
        "repairScan cr st (InvExprs cr) 0 = Inr None"
    | st nxt where "at (Valid cr) cur = Inr False" "Decode (Schema cr) cur = Inr st"
        "repairScan cr st (InvExprs cr) 0 = Inr (Some nxt)"
        "computeNF_loop cr sid (Suc iter) nxt = Inr nf"
    by blast
  then show ?case
  proof cases
    case 1
    then have "Valid cr ! nat cur" by (simp add: at_Inr_iff)
    with 1(2) show ?thesis by (simp add: firstValid_valid)
  next
    case 2
    from 2(1) have c: "0 \<le> cur" "cur < int (length (Valid cr))" "\<not> Valid cr ! nat cur"
      by (simp_all add: at_Inr_iff)
    from validFilled_validAt [OF assms c(1,2)] c(3) 2(2)
    have "evalValid cr st = Inr False" by (simp add: validAt_def bind_Inr_iff)
    with repairScan_None [OF 2(3)] show ?thesis by (simp add: evalValid_def)
  next
    case 3
    from 3(1) have nv: "\<not> Valid cr ! nat cur" by (simp add: at_Inr_iff)
    from computeNF_loop_Inr [OF 3(4)] have "Suc iter < MaxRepairIter" by simp
    then have k: "MaxRepairIter - 1 - iter = Suc (MaxRepairIter - 1 - Suc iter)" by simp
    from Suc.hyps(1) [OF m 3(4)]
    have "firstValid cr (MaxRepairIter - 1 - Suc iter) nxt = Some nf" .
    with nv repairScan_firstMatchStep [OF 3(2,3)] show ?thesis
      unfolding k by simp
  qed
qed


text \<open>A registry with two invariants that can be false together: \<open>x >= 1\<close>, repaired by
  \<open>x := 3\<close>, and \<open>x >= 2\<close>, repaired by \<open>x := 2\<close>. At \<open>x = 0\<close> both are false; the repair of
  the first fires and leads to 3. At \<open>x = 1\<close> only the second is false, and its repair
  leads to 2.\<close>

definition levels :: Registry where
  "levels =
     \<lparr>gName = ''levels'',
      gVars = [intVar ''x'' 0 3],
      Invariants = [\<lparr>iName = ''at_least_one'', iExpr = ''x >= 1''\<rparr>,
                    \<lparr>iName = ''at_least_two'', iExpr = ''x >= 2''\<rparr>],
      Compensation = [\<lparr>rInvariant = ''at_least_one'', rAssignments = [(''x'', ''3'')]\<rparr>,
                      \<lparr>rInvariant = ''at_least_two'', rAssignments = [(''x'', ''2'')]\<rparr>],
      Events = []\<rparr>"

definition levels_cr :: CompiledRegistry where
  "levels_cr =
     \<lparr>Reg = levels, Schema = NewSchema (gVars levels), EnumLiterals = [],
      InvExprs = [Node NodeGe 0 False []
                    [Node NodeVar 0 False ''x'' [], Node NodeLitInt 1 False [] []],
                  Node NodeGe 0 False []
                    [Node NodeVar 0 False ''x'' [], Node NodeLitInt 2 False [] []]],
      RepExprs = [[(0, Node NodeLitInt 3 False [] [])], [(0, Node NodeLitInt 2 False [] [])]],
      EvtGuards = [], EvtExprs = [],
      Valid = [], NF = [], Step = []\<rparr>"

lemma Compile_levels: "Compile levels = Inr levels_cr"
  by code_simp



text \<open>With the tables built, every normal form is valid and every valid state is its own
  normal form, so the two tests of \<open>CheckWFC\<close> always succeed.\<close>

lemma built_wfc_at:
  assumes "built cr" "0 \<le> s" "s < TotalLen (Schema cr)"
  shows "wfc_at cr s"
proof -
  from built_tables(4) [OF assms] have c: "computeNF_loop cr s 0 s = Inr (NF cr ! nat s)"
    by (simp add: computeNF_def)
  from computeNF_loop_firstValid [OF built_validFilled [OF assms(1)] c]
  have f: "firstValid cr (MaxRepairIter - 1) s = Some (NF cr ! nat s)" by simp
  from firstValid_Some_valid [OF f] have 1: "Valid cr ! nat (NF cr ! nat s)" .
  have 2: "NF cr ! nat s = s" if "Valid cr ! nat s"
    using f that by (simp add: firstValid_valid)
  from 1 2 show ?thesis by (simp add: wfc_at_def)
qed

end
